theory Spec2Isabelle
  imports
    Main
    "HOL-Library.Extended_Nat"
    "HOL-Library.Char_ord"
    "HOL-Library.List_Lexorder"
    "HOL-Library.AList"
    "HOL-Library.Multiset"
    "HOL-Library.Word"
begin

section \<open>JavaScript values and failures\<close>

text \<open>
  The bundler of \<^verbatim>\<open>src/index.ts\<close> handles values of type \<^verbatim>\<open>unknown\<close>: whatever a
  rejected promise carries. The fragment of JavaScript values modelled here:
  \<^item> \<open>JNum w\<close> is the number whose value is the integer \<open>sint w\<close>, from \<open>- 2^53\<close> up to
    \<open>2^53 - 1\<close>: each of these is a double, and prints as its decimal digits;
    \<open>JFloat t\<close> is any other finite number, given by the text \<open>t\<close> that
    \<^verbatim>\<open>Number.prototype.toString\<close> prints for it (\<^verbatim>\<open>1.5\<close>, \<^verbatim>\<open>1e+21\<close>);
    \<open>JNonFinite\<close> is \<^verbatim>\<open>NaN\<close> or an infinity;
  \<^item> \<open>JError m\<close> is an instance of \<^verbatim>\<open>Error\<close> whose message is \<open>m\<close> and which has no
    enumerable property of its own;
  \<^item> \<open>JObj\<close> is a plain object, its own enumerable properties in order (keys distinct);
  \<^item> strings are byte strings (UTF-8), so a character beyond ASCII is several \<open>char\<close>s.
  Cyclic objects are finite trees here, hence not values of the model.

  A computation that may throw returns \<open>Inl v\<close> for the thrown value \<open>v\<close>.
\<close>

datatype jsval =
    JUndefined
  | JNull
  | JBool bool
  | JNum "54 word"
  | JFloat string
  | JNonFinite
  | JBigInt int
  | JStr string
  | JSymbol
  | JFunction
  | JError string
  | JArr "jsval list"
  | JObj "(string \<times> jsval) list"

type_synonym 'a js = "jsval + 'a"

subsection \<open>\<^verbatim>\<open>JSON.stringify\<close>\<close>

text \<open>
  \<^verbatim>\<open>JSON.stringify\<close> with one argument, after ECMA-262 (SerializeJSONProperty,
  SerializeJSONArray, SerializeJSONObject, QuoteJSONString). It returns \<^verbatim>\<open>undefined\<close>
  (\<open>None\<close>) for \<^verbatim>\<open>undefined\<close>, a symbol and a function, and throws a \<^verbatim>\<open>TypeError\<close> on a
  BigInt.
\<close>

definition digit_char :: "nat \<Rightarrow> char" where
  "digit_char d = char_of (48 + d)"

fun digits :: "nat \<Rightarrow> string" where
  "digits n = (if n < 10 then [digit_char n] else digits (n div 10) @ [digit_char (n mod 10)])"

definition Number_toString :: "int \<Rightarrow> string" where
  "Number_toString i = (if i < 0 then CHR ''-'' # digits (nat (- i)) else digits (nat i))"

definition hex_char :: "nat \<Rightarrow> char" where
  "hex_char d = (if d < 10 then char_of (48 + d) else char_of (87 + d))"

definition escape_char :: "char \<Rightarrow> string" where
  "escape_char c =
     (if c = CHR 0x08 then [CHR 0x5C, CHR ''b'']
      else if c = CHR 0x09 then [CHR 0x5C, CHR ''t'']
      else if c = CHR 0x0A then [CHR 0x5C, CHR ''n'']
      else if c = CHR 0x0C then [CHR 0x5C, CHR ''f'']
      else if c = CHR 0x0D then [CHR 0x5C, CHR ''r'']
      else if c = CHR 0x22 then [CHR 0x5C, CHR 0x22]
      else if c = CHR 0x5C then [CHR 0x5C, CHR 0x5C]
      else if (of_char c :: nat) < 32
        then [CHR 0x5C, CHR ''u'', CHR ''0'', CHR ''0'',
              hex_char (of_char c div 16), hex_char (of_char c mod 16)]
      else [c])"

definition QuoteJSONString :: "string \<Rightarrow> string" where
  "QuoteJSONString s = CHR 0x22 # concat (map escape_char s) @ [CHR 0x22]"

fun join :: "string \<Rightarrow> string list \<Rightarrow> string" where
  "join sep [] = []"
| "join sep [x] = x"
| "join sep (x # y # ys) = x @ sep @ join sep (y # ys)"

fun SerializeJSONProperty :: "jsval \<Rightarrow> string option js"
  and SerializeJSONArray :: "jsval list \<Rightarrow> string list js"
  and SerializeJSONObject :: "(string \<times> jsval) list \<Rightarrow> string list js"
where
  "SerializeJSONProperty JUndefined = Inr None"
| "SerializeJSONProperty JNull = Inr (Some ''null'')"
| "SerializeJSONProperty (JBool b) = Inr (Some (if b then ''true'' else ''false''))"
| "SerializeJSONProperty (JNum n) = Inr (Some (Number_toString (sint n)))"
| "SerializeJSONProperty (JFloat t) = Inr (Some t)"
| "SerializeJSONProperty JNonFinite = Inr (Some ''null'')"
| "SerializeJSONProperty (JBigInt n) =
     Inl (JError ''Do not know how to serialize a BigInt'')"
| "SerializeJSONProperty (JStr s) = Inr (Some (QuoteJSONString s))"
| "SerializeJSONProperty JSymbol = Inr None"
| "SerializeJSONProperty JFunction = Inr None"
| "SerializeJSONProperty (JError m) = Inr (Some ''{}'')"
| "SerializeJSONProperty (JArr xs) =
     (case SerializeJSONArray xs of
        Inl e \<Rightarrow> Inl e
      | Inr parts \<Rightarrow> Inr (Some (''['' @ join '','' parts @ '']'')))"
| "SerializeJSONProperty (JObj ps) =
     (case SerializeJSONObject ps of
        Inl e \<Rightarrow> Inl e
      | Inr parts \<Rightarrow> Inr (Some (''{'' @ join '','' parts @ ''}'')))"
| "SerializeJSONArray [] = Inr []"
| "SerializeJSONArray (x # xs) =
     (case SerializeJSONProperty x of
        Inl e \<Rightarrow> Inl e
      | Inr r \<Rightarrow>
          (case SerializeJSONArray xs of
             Inl e \<Rightarrow> Inl e
           | Inr rs \<Rightarrow> Inr ((case r of None \<Rightarrow> ''null'' | Some t \<Rightarrow> t) # rs)))"
| "SerializeJSONObject [] = Inr []"
| "SerializeJSONObject (kv # ps) =
     (case SerializeJSONProperty (snd kv) of
        Inl e \<Rightarrow> Inl e
      | Inr r \<Rightarrow>
          (case SerializeJSONObject ps of
             Inl e \<Rightarrow> Inl e
           | Inr rs \<Rightarrow>
               Inr ((case r of
                       None \<Rightarrow> []
                     | Some t \<Rightarrow> [QuoteJSONString (fst kv) @ '':'' @ t]) @ rs)))"

definition JSON_stringify :: "jsval \<Rightarrow> string option js" where
  "JSON_stringify v = SerializeJSONProperty v"


subsection \<open>\<^verbatim>\<open>formatError\<close>\<close>

text \<open>
  \<^verbatim>\<open>
  export function formatError(error: unknown): string {
    if (error instanceof Error) return error.message;
    if (typeof error === 'string') return error;
    return JSON.stringify(error);
  }
  \<close>
  The declared result type is \<^verbatim>\<open>string\<close>, but the last line returns what
  \<^verbatim>\<open>JSON.stringify\<close> returns, so the result is a string option, or a thrown value.
\<close>

definition formatError :: "jsval \<Rightarrow> string option js" where
  "formatError error =
     (case error of
        JError message \<Rightarrow> Inr (Some message)
      | JStr s \<Rightarrow> Inr (Some s)
      | _ \<Rightarrow> JSON_stringify error)"


section \<open>The schema adapter\<close>

text \<open>
  The input schema of a tool, as far as \<^verbatim>\<open>zodShapeFromJsonSchema\<close> reads it: the
  \<^verbatim>\<open>properties\<close> object (its entries in order; an entry's value may be null) and
  the \<^verbatim>\<open>required\<close> list, both optional. The zod schemas it builds are the terms of
  the builder calls: \<^verbatim>\<open>z.any()\<close>, \<^verbatim>\<open>.describe(d)\<close>, \<^verbatim>\<open>.optional()\<close>,
  \<^verbatim>\<open>z.object(shape)\<close>, \<^verbatim>\<open>.passthrough()\<close>.
\<close>

record json_prop =
  prop_description :: "string option"

record json_schema =
  properties :: "(string \<times> json_prop option) list option"
  required :: "string list option"

datatype zod =
    ZAny
  | ZDescribe zod string
  | ZOptional zod
  | ZObject "(string \<times> zod) list"
  | ZPassthrough zod

text \<open>
  The body of the loop: \<^verbatim>\<open>prop?.description\<close> is tested for truthiness, so an empty
  description is not attached.
\<close>

definition zodField :: "string list \<Rightarrow> string \<Rightarrow> json_prop option \<Rightarrow> zod" where
  "zodField req name' prop =
     (let field = ZAny;
          field = (case prop of
                     None \<Rightarrow> field
                   | Some p \<Rightarrow>
                       (case prop_description p of
                          None \<Rightarrow> field
                        | Some d \<Rightarrow> if d \<noteq> [] then ZDescribe field d else field));
          field = (if name' \<notin> set req then ZOptional field else field)
      in field)"

text \<open>
  The loop assigns \<^verbatim>\<open>shape[name] = field\<close> on a plain object. For the name
  \<^verbatim>\<open>__proto__\<close> that assignment runs the setter of \<^verbatim>\<open>Object.prototype\<close>: the field
  becomes the prototype of the shape object and no key is created. From then on the shape
  object inherits from a zod schema, and an assignment to a name that zod's classes define
  as an accessor without a setter throws a \<^verbatim>\<open>TypeError\<close> (a module is strict code).
  Which names those are belongs to zod, not to the repository: \<open>accessors\<close> lists them
  (zod 3 has \<^verbatim>\<open>description\<close>). The shape of the model is the list of the object's own
  keys, in order; \<open>replaced\<close> says whether the prototype has been replaced. The entries
  are those of \<^verbatim>\<open>Object.entries(properties)\<close>.
\<close>

fun zodShapeLoop ::
  "string list \<Rightarrow> string list \<Rightarrow> (string \<times> json_prop option) list \<Rightarrow> bool \<Rightarrow>
   (string \<times> zod) list \<Rightarrow> (string \<times> zod) list js"
where
  "zodShapeLoop accessors req [] replaced shape = Inr shape"
| "zodShapeLoop accessors req (entry # rest) replaced shape =
     (if fst entry = ''__proto__'' then zodShapeLoop accessors req rest True shape
      else if replaced \<and> fst entry \<in> set accessors
        then Inl (JError (''Cannot set property '' @ fst entry @ '' which has only a getter''))
      else zodShapeLoop accessors req rest replaced
             (AList.update (fst entry) (zodField req (fst entry) (snd entry)) shape))"

definition zodShapeFromJsonSchema :: "string list \<Rightarrow> json_schema option \<Rightarrow> zod js" where
  "zodShapeFromJsonSchema accessors inputSchema' =
     (let props = (case inputSchema' of None \<Rightarrow> None | Some sch \<Rightarrow> properties sch);
          req = (case inputSchema' of
                   None \<Rightarrow> []
                 | Some sch \<Rightarrow> (case required sch of None \<Rightarrow> [] | Some r \<Rightarrow> r))
      in case props of
           None \<Rightarrow> Inr (ZPassthrough (ZObject []))
         | Some entries \<Rightarrow>
             if length entries = 0 then Inr (ZPassthrough (ZObject []))
             else (case zodShapeLoop accessors req entries False [] of
                     Inl exn \<Rightarrow> Inl exn
                   | Inr shape \<Rightarrow> Inr (ZPassthrough (ZObject shape))))"

text \<open>What a reader of a built field sees: its innermost validator, its description, and
  whether it is optional.\<close>

fun base_validator :: "zod \<Rightarrow> zod" where
  "base_validator (ZDescribe z d) = base_validator z"
| "base_validator (ZOptional z) = base_validator z"
| "base_validator z = z"

fun description_of :: "zod \<Rightarrow> string option" where
  "description_of (ZDescribe z d) = Some d"
| "description_of (ZOptional z) = description_of z"
| "description_of z = None"

fun is_optional :: "zod \<Rightarrow> bool" where
  "is_optional (ZOptional z) = True"
| "is_optional z = False"

section \<open>The connection lifecycle manager\<close>

datatype ConnectionState = Idle | Connecting | Connected | Disconnected

record ReconnectOptions =
  enabled :: bool
  intervalMs :: nat
  maxRetries :: enat

record PartialReconnectOptions =
  opt_enabled :: "bool option"
  opt_intervalMs :: "nat option"
  opt_maxRetries :: "enat option"

record McpBundlerOptions =
  opt_name :: string
  opt_url :: string
  opt_reconnect :: "PartialReconnectOptions option"

record Tool =
  name :: string
  description :: "string option"
  inputSchema :: "json_schema option"

datatype McpBundlerEvent =
    Ev_connected
  | Ev_disconnected
  | Ev_tools_changed "Tool list"

datatype Client = NewClient
datatype Transport = NewTransport

text \<open>
  The fields of the class, then the part of the runtime the class acts on: the timers
  that \<^verbatim>\<open>setTimeout\<close> armed and that have neither fired nor been cleared (by handle),
  the next fresh handle, and the notifications emitted so far. \<^verbatim>\<open>registeredToolNames\<close>
  is a \<^verbatim>\<open>Set\<close>: a list without repetition, in insertion order. \<^verbatim>\<open>maxRetries\<close> is
  a non-negative integer or \<^verbatim>\<open>Infinity\<close>. Calls of the logger are left out: it is a sink
  supplied by the caller; the arguments evaluated for it (\<^verbatim>\<open>formatError\<close>, which can
  throw) are kept.
\<close>

record McpBundler =
  bname :: string
  client :: "Client option"
  transport :: "Transport option"
  url :: string
  reconnectOpts :: ReconnectOptions
  state :: ConnectionState
  retryCount :: nat
  reconnectTimer :: "nat option"
  registeredToolNames :: "string list"
  lastToolNames :: "string list"
  closed :: bool
  pending_timers :: "nat list"
  next_timer :: nat
  emitted :: "McpBundlerEvent list"

definition new_McpBundler :: "McpBundlerOptions \<Rightarrow> McpBundler" where
  "new_McpBundler options =
     \<lparr> bname = opt_name options,
       client = None,
       transport = None,
       url = opt_url options,
       reconnectOpts =
         \<lparr> enabled = (case opt_reconnect options of
                        None \<Rightarrow> True
                      | Some r \<Rightarrow> (case opt_enabled r of None \<Rightarrow> True | Some b \<Rightarrow> b)),
           intervalMs = (case opt_reconnect options of
                           None \<Rightarrow> 5000
                         | Some r \<Rightarrow> (case opt_intervalMs r of None \<Rightarrow> 5000 | Some i \<Rightarrow> i)),
           maxRetries = (case opt_reconnect options of
                           None \<Rightarrow> \<infinity>
                         | Some r \<Rightarrow> (case opt_maxRetries r of None \<Rightarrow> \<infinity> | Some m \<Rightarrow> m)) \<rparr>,
       state = Idle,
       retryCount = 0,
       reconnectTimer = None,
       registeredToolNames = [],
       lastToolNames = [],
       closed = False,
       pending_timers = [],
       next_timer = 0,
       emitted = [] \<rparr>"



text \<open>
  \<^verbatim>\<open>scheduleReconnect\<close>: the three guards, then the counter and \<^verbatim>\<open>setTimeout\<close>. The
  handle kept in \<^verbatim>\<open>reconnectTimer\<close> is overwritten; a timer armed earlier stays armed.
\<close>

definition scheduleReconnect :: "McpBundler \<Rightarrow> McpBundler" where
  "scheduleReconnect s =
     (if closed s then s
      else if \<not> enabled (reconnectOpts s) then s
      else if enat (retryCount s) \<ge> maxRetries (reconnectOpts s) then s
      else s\<lparr> retryCount := retryCount s + 1,
              reconnectTimer := Some (next_timer s),
              pending_timers := pending_timers s @ [next_timer s],
              next_timer := next_timer s + 1 \<rparr>)"

text \<open>
  \<^verbatim>\<open>listTools\<close>: the argument is what the remote \<^verbatim>\<open>client.listTools()\<close> would answer.
  The catch block evaluates \<^verbatim>\<open>formatError(error)\<close> before it returns the empty list.
\<close>

definition listTools :: "Tool list js \<Rightarrow> McpBundler \<Rightarrow> Tool list js" where
  "listTools remote s =
     (if client s = None \<or> state s \<noteq> Connected then Inr []
      else (case remote of
              Inr tools \<Rightarrow> Inr tools
            | Inl error \<Rightarrow>
                (case formatError error of
                   Inl exn \<Rightarrow> Inl exn
                 | Inr msg \<Rightarrow> Inr [])))"

text \<open>
  \<^verbatim>\<open>connect\<close>. The try block can fail at \<^verbatim>\<open>new URL(this.url)\<close> (an \<^verbatim>\<open>Error\<close>
  instance, before the transport field is assigned), at \<^verbatim>\<open>client.connect\<close> (any value),
  or at \<^verbatim>\<open>listTools\<close> (when its own \<^verbatim>\<open>formatError\<close> throws). The catch block
  evaluates \<^verbatim>\<open>formatError(error)\<close> first: if that throws, \<^verbatim>\<open>connect\<close> rejects and the
  state stays as the try block left it.
\<close>

datatype open_outcome = UrlInvalid | OpenRejected jsval | Opened

definition connect_catch :: "jsval \<Rightarrow> McpBundler \<Rightarrow> unit js \<times> McpBundler" where
  "connect_catch error s =
     (case formatError error of
        Inl exn \<Rightarrow> (Inl exn, s)
      | Inr msg \<Rightarrow> (Inr (), scheduleReconnect (s\<lparr> state := Disconnected \<rparr>)))"

definition connect :: "open_outcome \<Rightarrow> Tool list js \<Rightarrow> McpBundler \<Rightarrow> unit js \<times> McpBundler" where
  "connect attempt listing s =
     (if closed s then (Inr (), s)
      else if state s = Connecting \<or> state s = Connected then (Inr (), s)
      else
        (let s1 = s\<lparr> state := Connecting, client := Some NewClient \<rparr> in
         case attempt of
           UrlInvalid \<Rightarrow> connect_catch (JError ''Invalid URL'') s1
         | OpenRejected error \<Rightarrow> connect_catch error (s1\<lparr> transport := Some NewTransport \<rparr>)
         | Opened \<Rightarrow>
             (let s2 = s1\<lparr> transport := Some NewTransport, state := Connected, retryCount := 0 \<rparr> in
              case listTools listing s2 of
                Inl exn \<Rightarrow> connect_catch exn s2
              | Inr tools \<Rightarrow>
                  (Inr (), s2\<lparr> lastToolNames := map name tools,
                               emitted := emitted s2 @ [Ev_connected] \<rparr>))))"

definition handleDisconnect :: "McpBundler \<Rightarrow> McpBundler" where
  "handleDisconnect s =
     scheduleReconnect
       (s\<lparr> state := Disconnected,
           lastToolNames := [],
           emitted := emitted s @ [Ev_disconnected] \<rparr>)"

text \<open>The \<^verbatim>\<open>onclose\<close> handler that \<^verbatim>\<open>connect\<close> installs on every transport.\<close>

definition transport_onclose :: "McpBundler \<Rightarrow> McpBundler" where
  "transport_onclose s = (if state s = Connected then handleDisconnect s else s)"

text \<open>
  \<^verbatim>\<open>close\<close>. \<^verbatim>\<open>client.close()\<close> belongs to the SDK, which is not part of the
  repository: closing the client closes its transport, and a transport that closes calls
  the \<^verbatim>\<open>onclose\<close> handler that \<^verbatim>\<open>connect\<close> installed on it (the SDK's HTTP
  transport does so before \<^verbatim>\<open>close()\<close> returns). \<^verbatim>\<open>close\<close> has not touched the state
  yet at that moment. The argument says whether the handler is called during the
  \<^verbatim>\<open>await\<close>, and what \<^verbatim>\<open>client.close()\<close> returns; both are used only when there is
  a client.
\<close>

record close_outcome =
  onclose_signalled :: bool
  close_result :: "unit js"

definition clearTimeout :: "nat \<Rightarrow> McpBundler \<Rightarrow> McpBundler" where
  "clearTimeout t s = s\<lparr> pending_timers := removeAll t (pending_timers s) \<rparr>"

definition close :: "close_outcome \<Rightarrow> McpBundler \<Rightarrow> unit js \<times> McpBundler" where
  "close closing s =
     (let s1 = s\<lparr> closed := True \<rparr>;
          s2 = (case reconnectTimer s1 of
                  None \<Rightarrow> s1
                | Some t \<Rightarrow> (clearTimeout t s1)\<lparr> reconnectTimer := None \<rparr>)
      in case client s2 of
           None \<Rightarrow> (Inr (), s2\<lparr> transport := None, state := Idle \<rparr>)
         | Some c \<Rightarrow>
             (let s3 = (if onclose_signalled closing then transport_onclose s2 else s2) in
              case close_result closing of
                Inr u \<Rightarrow> (Inr (), s3\<lparr> client := None, transport := None, state := Idle \<rparr>)
              | Inl error \<Rightarrow>
                  (case formatError error of
                     Inl exn \<Rightarrow> (Inl exn, s3)
                   | Inr msg \<Rightarrow>
                       (Inr (), s3\<lparr> client := None, transport := None, state := Idle \<rparr>))))"

text \<open>
  The callback that \<^verbatim>\<open>scheduleReconnect\<close> hands to \<^verbatim>\<open>setTimeout\<close>, for the timer
  with handle \<open>t\<close>; it runs only if that timer is still armed. It has three parts:
  the reset and the disposal of the stale client (\<open>discard_stale\<close>; closing the stale
  client cannot fail, the catch is empty, and a closure signal of its transport finds the
  state idle and does nothing), the call of \<^verbatim>\<open>connect\<close>, and the comparison
  of tool names when the state is connected (\<open>detect_tools_changed\<close>). \<open>listing1\<close>
  answers the listing inside \<^verbatim>\<open>connect\<close>, \<open>listing2\<close> the one the callback makes
  itself. \<^verbatim>\<open>Array.prototype.sort\<close> orders strings by UTF-16 code units, \<open>sort\<close> here
  by bytes; only the equality of the two sorted lists is used, which is the equality of
  the two multisets of names under any total order.
\<close>

definition names_differ :: "string list \<Rightarrow> string list \<Rightarrow> bool" where
  "names_differ newNames oldNames =
     (JSON_stringify (JArr (map JStr newNames)) \<noteq> JSON_stringify (JArr (map JStr oldNames)))"

definition discard_stale :: "nat \<Rightarrow> McpBundler \<Rightarrow> McpBundler" where
  "discard_stale t s =
     (let s0 = clearTimeout t s;
          s1 = s0\<lparr> reconnectTimer := None, state := Idle \<rparr>
      in if client s1 \<noteq> None then s1\<lparr> client := None, transport := None \<rparr> else s1)"

definition detect_tools_changed :: "Tool list js \<Rightarrow> McpBundler \<Rightarrow> unit js \<times> McpBundler" where
  "detect_tools_changed listing2 s3 =
     (if state s3 = Connected then
        (case listTools listing2 s3 of
           Inl exn \<Rightarrow> (Inl exn, s3)
         | Inr tools \<Rightarrow>
             (let newNames = sort (map name tools);
                  oldNames = sort (lastToolNames s3)
              in if names_differ newNames oldNames
                 then (Inr (), s3\<lparr> lastToolNames := map name tools,
                                   emitted := emitted s3 @ [Ev_tools_changed tools] \<rparr>)
                 else (Inr (), s3)))
      else (Inr (), s3))"

definition reconnect_callback ::
  "nat \<Rightarrow> open_outcome \<Rightarrow> Tool list js \<Rightarrow> Tool list js \<Rightarrow> McpBundler \<Rightarrow> unit js \<times> McpBundler"
where
  "reconnect_callback t attempt listing1 listing2 s =
     (if t \<notin> set (pending_timers s) then (Inr (), s)
      else
        (case connect attempt listing1 (discard_stale t s) of
           (Inl exn, s3) \<Rightarrow> (Inl exn, s3)
         | (Inr u, s3) \<Rightarrow> detect_tools_changed listing2 s3))"

subsection \<open>Proxies\<close>

datatype ContentItem = TextContent string | OtherContent jsval




text \<open>
  What \<^verbatim>\<open>server.registerTool\<close> receives: the name, the description, the adapted schema
  and the handler, a closure over the tool's name. The schema is adapted first, which can
  throw. The host may refuse a name (the SDK's server throws on a name it already has);
  \<open>refused\<close> lists the names it refuses.
\<close>

record Installed =
  inst_name :: string
  inst_description :: "string option"
  inst_inputSchema :: zod
  inst_handler :: string

definition set_add :: "string \<Rightarrow> string list \<Rightarrow> string list" where
  "set_add x xs = (if x \<in> set xs then xs else xs @ [x])"

fun registerLoop ::
  "string list \<Rightarrow> string list \<Rightarrow> Tool list \<Rightarrow> McpBundler \<Rightarrow>
   unit js \<times> Installed list \<times> McpBundler"
where
  "registerLoop accessors refused [] s = (Inr (), [], s)"
| "registerLoop accessors refused (tool # rest) s =
     (case zodShapeFromJsonSchema accessors (inputSchema tool) of
        Inl exn \<Rightarrow> (Inl exn, [], s)
      | Inr schema \<Rightarrow>
          if name tool \<in> set refused
          then (Inl (JError (''Tool '' @ name tool @ '' is already registered'')), [], s)
          else
            (case registerLoop accessors refused rest
                    (s\<lparr> registeredToolNames := set_add (name tool) (registeredToolNames s) \<rparr>) of
               (r, installed, s') \<Rightarrow>
                 (r,
                  \<lparr> inst_name = name tool,
                    inst_description = description tool,
                    inst_inputSchema = schema,
                    inst_handler = name tool \<rparr> # installed,
                  s')))"

definition registerTools ::
  "string list \<Rightarrow> Tool list js \<Rightarrow> string list \<Rightarrow> McpBundler \<Rightarrow>
   unit js \<times> Installed list \<times> McpBundler"
where
  "registerTools accessors listing refused s =
     (case listTools listing s of
        Inl exn \<Rightarrow> (Inl exn, [], s)
      | Inr tools \<Rightarrow> registerLoop accessors refused tools s)"

text \<open>
  \<^verbatim>\<open>unregisterTools\<close>: the host is its \<^verbatim>\<open>_registeredTools\<close> table, absent (\<open>None\<close>)
  or a table from names to entries, each with or without a \<^verbatim>\<open>remove\<close> function. The
  result lists the names whose \<^verbatim>\<open>remove()\<close> was called, in order.
\<close>

record RegisteredTool =
  has_remove :: bool

definition removable :: "(string \<times> RegisteredTool) list \<Rightarrow> string \<Rightarrow> bool" where
  "removable table n = (case map_of table n of None \<Rightarrow> False | Some tool \<Rightarrow> has_remove tool)"

definition unregisterTools ::
  "(string \<times> RegisteredTool) list option \<Rightarrow> McpBundler \<Rightarrow> string list \<times> McpBundler"
where
  "unregisterTools host s =
     (case host of
        None \<Rightarrow> ([], s)
      | Some table \<Rightarrow>
          (filter (removable table) (registeredToolNames s),
           s\<lparr> registeredToolNames := [] \<rparr>))"

subsection \<open>Runs of the manager\<close>

text \<open>
  The triggers of the specification, section 5: a call of the caller, the closure signal
  of a transport, a timer that fires. In a run of triggers each runs to completion before
  the next one starts (the specification's serialization of triggers), the closure signal
  that a \<^verbatim>\<open>close\<close> provokes apart: no trigger comes in while another is suspended at an
  \<^verbatim>\<open>await\<close>, and a listener does not call back into the manager while it is being
  notified. The code does not enforce this; the runs in which operations interleave at
  their \<^verbatim>\<open>await\<close>s are those of \<open>segments\<close> below, of which the runs of triggers are
  a part. What the remote answers during a trigger is part of the trigger. A timer fires
  only while it is armed; the closure signal of any transport, also of a stale one, runs
  the same handler. A run may offer any outcome of an open at any time, also outcomes
  that one fixed URL would not produce in turn.
\<close>

datatype trigger =
    CallConnect open_outcome "Tool list js"
  | CallClose close_outcome
  | TransportClosed
  | TimerFires nat open_outcome "Tool list js" "Tool list js"
  | CallRegisterTools "string list" "Tool list js" "string list"
  | CallUnregisterTools "(string \<times> RegisteredTool) list option"

fun step :: "McpBundler \<Rightarrow> trigger \<Rightarrow> McpBundler" where
  "step s (CallConnect attempt listing) = snd (connect attempt listing s)"
| "step s (CallClose closing) = snd (close closing s)"
| "step s TransportClosed = transport_onclose s"
| "step s (TimerFires t attempt listing1 listing2) =
     snd (reconnect_callback t attempt listing1 listing2 s)"
| "step s (CallRegisterTools accessors listing refused) =
     snd (snd (registerTools accessors listing refused s))"
| "step s (CallUnregisterTools host) = snd (unregisterTools host s)"

definition run :: "McpBundler \<Rightarrow> trigger list \<Rightarrow> McpBundler" where
  "run s trace = foldl step s trace"

subsection \<open>Operations suspended at an await\<close>

text \<open>
  The asynchronous methods in segments. A segment runs from a call, or from the point
  where an \<^verbatim>\<open>await\<close> is resumed, to the next \<^verbatim>\<open>await\<close> or to the end; between two
  segments of one operation any segment of another can run. A suspended operation is a
  task: where it waits, and what it carries across the \<^verbatim>\<open>await\<close>.
  \<^item> \<open>AwaitOpen\<close>: \<^verbatim>\<open>connect\<close> at \<^verbatim>\<open>await this.client.connect(this.transport)\<close>;
  \<^item> \<open>AwaitInitialListing\<close>: \<^verbatim>\<open>connect\<close> at \<^verbatim>\<open>await this.listTools()\<close>, with whether
    \<^verbatim>\<open>listTools\<close> passed its guard and asked the remote;
  \<^item> \<open>AwaitClose\<close>: \<^verbatim>\<open>close\<close> at \<^verbatim>\<open>await this.client.close()\<close>;
  \<^item> \<open>AwaitStaleClose\<close>: the reconnect callback at its \<^verbatim>\<open>await this.client.close()\<close>;
  \<^item> \<open>AwaitConnect\<close>: the reconnect callback at \<^verbatim>\<open>await this.connect()\<close>, once that
    \<^verbatim>\<open>connect\<close> has returned or thrown;
  \<^item> \<open>AwaitSecondListing\<close>: the reconnect callback at its \<^verbatim>\<open>await this.listTools()\<close>;
  \<^item> \<open>AwaitRegisterListing\<close>: \<^verbatim>\<open>registerTools\<close> at \<^verbatim>\<open>await this.listTools()\<close>.
  A \<^verbatim>\<open>connect\<close> is called by the caller or by the reconnect callback, which goes on
  when it returns.
\<close>

datatype caller = ByCaller | ByTimer

datatype task =
    AwaitOpen caller
  | AwaitInitialListing caller bool
  | AwaitClose
  | AwaitStaleClose
  | AwaitConnect "unit js"
  | AwaitSecondListing bool
  | AwaitRegisterListing bool

text \<open>What resumes a task: the answer of the remote, or of the host; for the stale close
  only whether the URL is valid, which the \<^verbatim>\<open>connect\<close> that follows needs.\<close>

datatype answer =
    Open_answer "unit js"
  | List_answer "Tool list js"
  | Close_answer "unit js"
  | Stale_close_answer bool
  | Connect_answer
  | Register_answer "string list" "Tool list js" "string list"

text \<open>\<^verbatim>\<open>listTools\<close> in two segments: the guard, and the result once the remote answered.\<close>

definition listTools_asks :: "McpBundler \<Rightarrow> bool" where
  "listTools_asks s \<longleftrightarrow> \<not> (client s = None \<or> state s \<noteq> Connected)"

definition listTools_result :: "bool \<Rightarrow> Tool list js \<Rightarrow> Tool list js" where
  "listTools_result asked remote =
     (if \<not> asked then Inr []
      else (case remote of
              Inr tools \<Rightarrow> Inr tools
            | Inl error \<Rightarrow>
                (case formatError error of
                   Inl exn \<Rightarrow> Inl exn
                 | Inr msg \<Rightarrow> Inr [])))"

text \<open>\<^verbatim>\<open>connect\<close> in three segments.\<close>

definition connect_returns :: "caller \<Rightarrow> unit js \<times> McpBundler \<Rightarrow> McpBundler \<times> task list" where
  "connect_returns who r =
     (snd r, case who of ByCaller \<Rightarrow> [] | ByTimer \<Rightarrow> [AwaitConnect (fst r)])"

definition connect_begin :: "caller \<Rightarrow> bool \<Rightarrow> McpBundler \<Rightarrow> McpBundler \<times> task list" where
  "connect_begin who url_ok s =
     (if closed s then connect_returns who (Inr (), s)
      else if state s = Connecting \<or> state s = Connected then connect_returns who (Inr (), s)
      else
        (let s1 = s\<lparr> state := Connecting, client := Some NewClient \<rparr> in
         if \<not> url_ok then connect_returns who (connect_catch (JError ''Invalid URL'') s1)
         else (s1\<lparr> transport := Some NewTransport \<rparr>, [AwaitOpen who])))"

definition connect_opened :: "caller \<Rightarrow> unit js \<Rightarrow> McpBundler \<Rightarrow> McpBundler \<times> task list" where
  "connect_opened who opened s =
     (case opened of
        Inl error \<Rightarrow> connect_returns who (connect_catch error s)
      | Inr u \<Rightarrow>
          (let s2 = s\<lparr> state := Connected, retryCount := 0 \<rparr>
           in (s2, [AwaitInitialListing who (listTools_asks s2)])))"

definition connect_listed ::
  "caller \<Rightarrow> bool \<Rightarrow> Tool list js \<Rightarrow> McpBundler \<Rightarrow> McpBundler \<times> task list"
where
  "connect_listed who asked remote s =
     (case listTools_result asked remote of
        Inl exn \<Rightarrow> connect_returns who (connect_catch exn s)
      | Inr tools \<Rightarrow>
          connect_returns who
            (Inr (), s\<lparr> lastToolNames := map name tools,
                          emitted := emitted s @ [Ev_connected] \<rparr>))"

text \<open>\<^verbatim>\<open>close\<close> in two segments.\<close>

definition close_begin :: "McpBundler \<Rightarrow> McpBundler \<times> task list" where
  "close_begin s =
     (let s1 = s\<lparr> closed := True \<rparr>;
          s2 = (case reconnectTimer s1 of
                  None \<Rightarrow> s1
                | Some t \<Rightarrow> (clearTimeout t s1)\<lparr> reconnectTimer := None \<rparr>)
      in case client s2 of
           None \<Rightarrow> (s2\<lparr> transport := None, state := Idle \<rparr>, [])
         | Some c \<Rightarrow> (s2, [AwaitClose]))"

definition close_settled :: "unit js \<Rightarrow> McpBundler \<Rightarrow> McpBundler" where
  "close_settled settled s =
     (case settled of
        Inr u \<Rightarrow> s\<lparr> client := None, transport := None, state := Idle \<rparr>
      | Inl error \<Rightarrow>
          (case formatError error of
             Inl exn \<Rightarrow> s
           | Inr msg \<Rightarrow> s\<lparr> client := None, transport := None, state := Idle \<rparr>))"

text \<open>The reconnect callback in up to four segments of its own, around those of
  \<^verbatim>\<open>connect\<close>.\<close>

definition callback_begin :: "nat \<Rightarrow> bool \<Rightarrow> McpBundler \<Rightarrow> McpBundler \<times> task list" where
  "callback_begin t url_ok s =
     (if t \<notin> set (pending_timers s) then (s, [])
      else
        (let s0 = clearTimeout t s;
             s1 = s0\<lparr> reconnectTimer := None, state := Idle \<rparr>
         in if client s1 \<noteq> None then (s1, [AwaitStaleClose])
            else connect_begin ByTimer url_ok s1))"

definition callback_stale_closed :: "bool \<Rightarrow> McpBundler \<Rightarrow> McpBundler \<times> task list" where
  "callback_stale_closed url_ok s =
     connect_begin ByTimer url_ok (s\<lparr> client := None, transport := None \<rparr>)"

definition callback_connected :: "unit js \<Rightarrow> McpBundler \<Rightarrow> McpBundler \<times> task list" where
  "callback_connected r s =
     (case r of
        Inl exn \<Rightarrow> (s, [])
      | Inr u \<Rightarrow>
          if state s = Connected then (s, [AwaitSecondListing (listTools_asks s)])
          else (s, []))"

definition callback_listed :: "bool \<Rightarrow> Tool list js \<Rightarrow> McpBundler \<Rightarrow> McpBundler" where
  "callback_listed asked remote s =
     (case listTools_result asked remote of
        Inl exn \<Rightarrow> s
      | Inr tools \<Rightarrow>
          (let newNames = sort (map name tools);
               oldNames = sort (lastToolNames s)
           in if names_differ newNames oldNames
              then s\<lparr> lastToolNames := map name tools,
                       emitted := emitted s @ [Ev_tools_changed tools] \<rparr>
              else s))"

text \<open>\<^verbatim>\<open>registerTools\<close> in two segments.\<close>

definition register_listed ::
  "bool \<Rightarrow> string list \<Rightarrow> Tool list js \<Rightarrow> string list \<Rightarrow> McpBundler \<Rightarrow> McpBundler"
where
  "register_listed asked accessors remote refused s =
     (case listTools_result asked remote of
        Inl exn \<Rightarrow> s
      | Inr tools \<Rightarrow> snd (snd (registerLoop accessors refused tools s)))"

fun resume :: "task \<Rightarrow> answer \<Rightarrow> McpBundler \<Rightarrow> (McpBundler \<times> task list) option" where
  "resume (AwaitOpen who) (Open_answer opened) s = Some (connect_opened who opened s)"
| "resume (AwaitInitialListing who asked) (List_answer remote) s =
     Some (connect_listed who asked remote s)"
| "resume AwaitClose (Close_answer settled) s = Some (close_settled settled s, [])"
| "resume AwaitStaleClose (Stale_close_answer url_ok) s = Some (callback_stale_closed url_ok s)"
| "resume (AwaitConnect r) Connect_answer s = Some (callback_connected r s)"
| "resume (AwaitSecondListing asked) (List_answer remote) s =
     Some (callback_listed asked remote s, [])"
| "resume (AwaitRegisterListing asked) (Register_answer accessors remote refused) s =
     Some (register_listed asked accessors remote refused s, [])"
| "resume k a s = None"

text \<open>
  What happens to the manager, one segment at a time: a call or a timer begins an
  operation, a transport signals its closure, or the suspended task at some position is
  resumed with an answer (nothing happens when the answer does not fit the task). The
  configuration is the manager with its suspended tasks.
\<close>

datatype action =
    Begin_connect bool
  | Begin_close
  | Signal_onclose
  | Timer_fires nat bool
  | Begin_registerTools
  | Call_unregisterTools "(string \<times> RegisteredTool) list option"
  | Resume nat answer

fun segment :: "McpBundler \<times> task list \<Rightarrow> action \<Rightarrow> McpBundler \<times> task list" where
  "segment (s, pool) (Begin_connect url_ok) =
     (case connect_begin ByCaller url_ok s of (s', new) \<Rightarrow> (s', pool @ new))"
| "segment (s, pool) Begin_close =
     (case close_begin s of (s', new) \<Rightarrow> (s', pool @ new))"
| "segment (s, pool) Signal_onclose = (transport_onclose s, pool)"
| "segment (s, pool) (Timer_fires t url_ok) =
     (case callback_begin t url_ok s of (s', new) \<Rightarrow> (s', pool @ new))"
| "segment (s, pool) Begin_registerTools = (s, pool @ [AwaitRegisterListing (listTools_asks s)])"
| "segment (s, pool) (Call_unregisterTools host) = (snd (unregisterTools host s), pool)"
| "segment (s, pool) (Resume i a) =
     (if i < length pool then
        (case resume (pool ! i) a s of
           None \<Rightarrow> (s, pool)
         | Some (s', new) \<Rightarrow> (s', take i pool @ new @ drop (Suc i) pool))
      else (s, pool))"

definition segments :: "McpBundler \<times> task list \<Rightarrow> action list \<Rightarrow> McpBundler \<times> task list" where
  "segments c acts = foldl segment c acts"

text \<open>The segments of one trigger of \<open>step\<close>, in a row.\<close>

definition open_answer_of :: "open_outcome \<Rightarrow> unit js" where
  "open_answer_of attempt = (case attempt of OpenRejected error \<Rightarrow> Inl error | _ \<Rightarrow> Inr ())"

fun in_a_row :: "trigger \<Rightarrow> action list" where
  "in_a_row (CallConnect attempt listing) =
     [Begin_connect (attempt \<noteq> UrlInvalid),
      Resume 0 (Open_answer (open_answer_of attempt)),
      Resume 0 (List_answer listing)]"
| "in_a_row (CallClose closing) =
     Begin_close # (if onclose_signalled closing then [Signal_onclose] else [])
       @ [Resume 0 (Close_answer (close_result closing))]"
| "in_a_row TransportClosed = [Signal_onclose]"
| "in_a_row (TimerFires t attempt listing1 listing2) =
     [Timer_fires t (attempt \<noteq> UrlInvalid),
      Resume 0 (Stale_close_answer (attempt \<noteq> UrlInvalid)),
      Resume 0 (Open_answer (open_answer_of attempt)),
      Resume 0 (List_answer listing1),
      Resume 0 Connect_answer,
      Resume 0 (List_answer listing2)]"
| "in_a_row (CallRegisterTools accessors listing refused) =
     [Begin_registerTools, Resume 0 (Register_answer accessors listing refused)]"
| "in_a_row (CallUnregisterTools host) = [Call_unregisterTools host]"

text \<open>
  The operations that change the connection are \<^verbatim>\<open>connect\<close>, \<^verbatim>\<open>close\<close> and the
  reconnect callback. They do not overlap in a run when none of them begins while one of
  them is suspended. A closure signal may come at any time, \<^verbatim>\<open>registerTools\<close> may begin
  and go on at any time, and \<^verbatim>\<open>unregisterTools\<close> is synchronous.
\<close>

fun begins :: "action \<Rightarrow> bool" where
  "begins (Begin_connect url_ok) = True"
| "begins Begin_close = True"
| "begins (Timer_fires t url_ok) = True"
| "begins a = False"

fun of_connection :: "task \<Rightarrow> bool" where
  "of_connection (AwaitRegisterListing asked) = False"
| "of_connection k = True"

fun one_at_a_time :: "McpBundler \<times> task list \<Rightarrow> action list \<Rightarrow> bool" where
  "one_at_a_time c [] = True"
| "one_at_a_time c (a # acts) =
     ((begins a \<longrightarrow> filter of_connection (snd c) = []) \<and> one_at_a_time (segment c a) acts)"

subsection \<open>Invariants of runs\<close>

definition client_inv :: "McpBundler \<Rightarrow> bool" where
  "client_inv s \<longleftrightarrow> (state s = Idle \<longleftrightarrow> client s = None)"

definition retry_inv :: "McpBundler \<Rightarrow> bool" where
  "retry_inv s \<longleftrightarrow> enat (retryCount s) \<le> maxRetries (reconnectOpts s)"

definition shut_down :: "McpBundler \<Rightarrow> bool" where
  "shut_down s \<longleftrightarrow> closed s \<and> state s = Idle \<and> client s = None"

text \<open>The relation between the state, the client and the suspended operation on the
  connection, if there is one, that runs without overlap keep.\<close>

fun task_inv :: "task \<Rightarrow> McpBundler \<Rightarrow> bool" where
  "task_inv (AwaitOpen who) s = (state s \<noteq> Idle \<and> client s \<noteq> None)"
| "task_inv (AwaitInitialListing who asked) s = (state s \<noteq> Idle \<and> client s \<noteq> None)"
| "task_inv AwaitClose s = (state s \<noteq> Idle \<and> client s \<noteq> None)"
| "task_inv AwaitStaleClose s = (state s = Idle \<and> client s \<noteq> None)"
| "task_inv k s = client_inv s"

fun held_by :: "task list \<Rightarrow> McpBundler \<Rightarrow> bool" where
  "held_by [] s = client_inv s"
| "held_by [k] s = task_inv k s"
| "held_by ks s = False"

definition orderly_inv :: "McpBundler \<times> task list \<Rightarrow> bool" where
  "orderly_inv c = held_by (filter of_connection (snd c)) (fst c)"

text \<open>What a trigger may still change once the manager is shut down: nothing but the
  registration set and the armed timers, which can only become fewer.\<close>

definition quiet :: "McpBundler \<Rightarrow> McpBundler \<Rightarrow> bool" where
  "quiet s s' \<longleftrightarrow>
     shut_down s' \<and> next_timer s' = next_timer s
     \<and> set (pending_timers s') \<subseteq> set (pending_timers s)
     \<and> emitted s' = emitted s \<and> lastToolNames s' = lastToolNames s
     \<and> retryCount s' = retryCount s"

subsection \<open>Inputs of the repository's tests\<close>

text \<open>
  The options of \<^verbatim>\<open>index.test.ts\<close>: the bundler of \<^verbatim>\<open>beforeEach\<close> (reconnect
  disabled) and the one of the reconnection tests (enabled, 100 ms, at most 2 retries),
  and one with reconnect enabled and no retry allowed; nothing listens at the URL, so
  every open is refused. Closing a client goes well and signals the closure of its
  transport, as the SDK's client does. The tool lists are those of the
  specification's examples of change detection.
\<close>

definition test_options :: McpBundlerOptions where
  "test_options =
     \<lparr> opt_name = ''test'', opt_url = ''http://127.0.0.1:9999/mcp'',
       opt_reconnect =
         Some \<lparr> opt_enabled = Some False, opt_intervalMs = None, opt_maxRetries = None \<rparr> \<rparr>"

definition reconnect_test_options :: McpBundlerOptions where
  "reconnect_test_options =
     \<lparr> opt_name = ''reconnect-test'', opt_url = ''http://127.0.0.1:9999/mcp'',
       opt_reconnect =
         Some \<lparr> opt_enabled = Some True, opt_intervalMs = Some 100,
                opt_maxRetries = Some 2 \<rparr> \<rparr>"

definition no_retry_options :: McpBundlerOptions where
  "no_retry_options =
     \<lparr> opt_name = ''test'', opt_url = ''http://127.0.0.1:9999/mcp'',
       opt_reconnect =
         Some \<lparr> opt_enabled = Some True, opt_intervalMs = None, opt_maxRetries = Some 0 \<rparr> \<rparr>"

definition closes_well :: close_outcome where
  "closes_well = \<lparr> onclose_signalled = True, close_result = Inr () \<rparr>"

definition zod_accessors :: "string list" where
  "zod_accessors = [''description'']"

definition fetch_failed :: open_outcome where
  "fetch_failed = OpenRejected (JError ''fetch failed'')"

definition plain_tool :: "string \<Rightarrow> Tool" where
  "plain_tool n = \<lparr> name = n, description = None, inputSchema = None \<rparr>"

section \<open>The error formatter\<close>

lemma formatError_other:
  "(\<forall>m. v \<noteq> JError m) \<Longrightarrow> (\<forall>t. v \<noteq> JStr t) \<Longrightarrow> formatError v = JSON_stringify v"
  by (cases v) (simp_all add: formatError_def)

text \<open>
  Claim C8, as amended. \<^verbatim>\<open>formatError\<close> returns the message of an \<^verbatim>\<open>Error\<close> instance
  and returns a string unchanged; on every other value it returns exactly what
  \<^verbatim>\<open>JSON.stringify\<close> returns. It has no fallback literal for a value that cannot be
  serialized: for \<^verbatim>\<open>undefined\<close>, a function and a symbol the result is \<^verbatim>\<open>undefined\<close>,
  not a string, and for a BigInt the \<^verbatim>\<open>TypeError\<close> of \<^verbatim>\<open>JSON.stringify\<close> is thrown.
\<close>

theorem formatError_cases:
  "formatError (JError m) = Inr (Some m)
   \<and> formatError (JStr s) = Inr (Some s)
   \<and> ((\<forall>m'. v \<noteq> JError m') \<and> (\<forall>t. v \<noteq> JStr t) \<longrightarrow> formatError v = JSON_stringify v)
   \<and> formatError JUndefined = Inr None
   \<and> formatError JFunction = Inr None
   \<and> formatError JSymbol = Inr None
   \<and> formatError (JBigInt n) = Inl (JError ''Do not know how to serialize a BigInt'')"
  using formatError_other [of v]
  by (simp add: formatError_def JSON_stringify_def)

text \<open>The inputs of the repository's tests for \<^verbatim>\<open>formatError\<close>, through the theorem.\<close>

theorem formatError_cases_witness:
  "formatError (JError ''boom'') = Inr (Some ''boom'')
   \<and> formatError (JStr ''something went wrong'') = Inr (Some ''something went wrong'')
   \<and> formatError (JObj [(''code'', JNum 42)])
       = Inr (Some (''{'' @ [CHR 0x22] @ ''code'' @ [CHR 0x22] @ '':42}''))
   \<and> formatError JNull = Inr (Some ''null'')
   \<and> formatError (JNum 123) = Inr (Some ''123'')"
proof -
  have a: "JSON_stringify (JObj [(''code'', JNum 42)])
      = Inr (Some (''{'' @ [CHR 0x22] @ ''code'' @ [CHR 0x22] @ '':42}''))"
    by code_simp
  have b: "JSON_stringify JNull = Inr (Some ''null'')"
    by (simp add: JSON_stringify_def)
  have c: "JSON_stringify (JNum 123) = Inr (Some ''123'')"
    by code_simp
  show ?thesis
    using formatError_cases [of "''boom''" "''something went wrong''" "JObj [(''code'', JNum 42)]" 0]
      formatError_cases [of "''boom''" "''something went wrong''" JNull 0]
      formatError_cases [of "''boom''" "''something went wrong''" "JNum 123" 0]
    by (simp add: a b c)
qed

text \<open>A plain object is serialized also when it has a \<^verbatim>\<open>message\<close> property: the
  test of the first branch is \<^verbatim>\<open>instanceof Error\<close>.\<close>

lemma formatError_plain_object_with_message:
  "formatError (JObj [(''message'', JStr ''boom'')])
     = Inr (Some (''{'' @ [CHR 0x22] @ ''message'' @ [CHR 0x22] @ '':''
                  @ [CHR 0x22] @ ''boom'' @ [CHR 0x22] @ ''}''))"
  by code_simp

text \<open>
  Claim C8 as stated fails: where serialization is impossible no literal is returned.
  On \<^verbatim>\<open>undefined\<close> the result is \<^verbatim>\<open>undefined\<close>; on the BigInt \<^verbatim>\<open>10n\<close> the call throws.
\<close>

theorem formatError_no_fallback_literal:
  "formatError JUndefined = Inr None
   \<and> formatError (JBigInt 10) = Inl (JError ''Do not know how to serialize a BigInt'')"
  by (simp add: formatError_def JSON_stringify_def)

section \<open>The schema adapter builds a permissive shape\<close>

lemma zodShapeLoop_distinct:
  "distinct (map fst entries) \<Longrightarrow> set (map fst entries) \<inter> set (map fst shape) = {} \<Longrightarrow>
   ''__proto__'' \<notin> set (map fst entries) \<Longrightarrow>
   zodShapeLoop accessors req entries False shape
     = Inr (shape @ map (\<lambda>e. (fst e, zodField req (fst e) (snd e))) entries)"
proof (induction entries arbitrary: shape)
  case Nil
  then show ?case by simp
next
  case (Cons e es)
  have "fst e \<notin> fst ` set shape"
    using Cons.prems by auto
  then have u: "AList.update (fst e) (zodField req (fst e) (snd e)) shape
      = shape @ [(fst e, zodField req (fst e) (snd e))]"
    by (induction shape) auto
  have "fst e \<noteq> ''__proto__''"
    using Cons.prems by auto
  then show ?case
    using Cons by (simp add: u)
qed

lemma zodField_props:
  "base_validator (zodField req n pr) = ZAny"
  "description_of (zodField req n pr) =
     (case pr of
        None \<Rightarrow> None
      | Some p \<Rightarrow>
          (case prop_description p of
             None \<Rightarrow> None
           | Some d \<Rightarrow> if d = [] then None else Some d))"
  "is_optional (zodField req n pr) \<longleftrightarrow> n \<notin> set req"
  by (auto simp: zodField_def Let_def split: option.splits)

lemma zodShape_no_properties:
  "zodShapeFromJsonSchema accessors None = Inr (ZPassthrough (ZObject []))"
  "properties sch = None \<Longrightarrow>
     zodShapeFromJsonSchema accessors (Some sch) = Inr (ZPassthrough (ZObject []))"
  "properties sch = Some [] \<Longrightarrow>
     zodShapeFromJsonSchema accessors (Some sch) = Inr (ZPassthrough (ZObject []))"
  by (simp_all add: zodShapeFromJsonSchema_def)

lemma zodShape_properties:
  assumes "properties sch = Some entries" and "distinct (map fst entries)"
    and "''__proto__'' \<notin> set (map fst entries)"
  shows "zodShapeFromJsonSchema accessors (Some sch) =
     Inr (ZPassthrough (ZObject (map (\<lambda>e. (fst e,
        zodField (case required sch of None \<Rightarrow> [] | Some r \<Rightarrow> r) (fst e) (snd e))) entries)))"
  using assms zodShapeLoop_distinct [of entries "[]"]
  by (cases entries) (simp_all add: zodShapeFromJsonSchema_def)

text \<open>The property named \<^verbatim>\<open>__proto__\<close> gets no field, whatever follows it; and a
  property after it whose name is an accessor of the field makes the adapter throw.\<close>

lemma zodShapeLoop_replaced:
  "distinct (map fst entries) \<Longrightarrow> set (map fst entries) \<inter> set (map fst shape) = {} \<Longrightarrow>
   set (map fst entries) \<inter> set accessors = {} \<Longrightarrow>
   zodShapeLoop accessors req entries replaced shape
     = Inr (shape @ map (\<lambda>e. (fst e, zodField req (fst e) (snd e)))
                      (filter (\<lambda>e. fst e \<noteq> ''__proto__'') entries))"
proof (induction entries arbitrary: shape replaced)
  case Nil
  then show ?case by simp
next
  case (Cons e es)
  have "fst e \<notin> fst ` set shape"
    using Cons.prems by auto
  then have u: "AList.update (fst e) (zodField req (fst e) (snd e)) shape
      = shape @ [(fst e, zodField req (fst e) (snd e))]"
    by (induction shape) auto
  show ?case
  proof (cases "fst e = ''__proto__''")
    case True
    then show ?thesis
      using Cons by simp
  next
    case False
    then show ?thesis
      using Cons by (simp add: u)
  qed
qed

text \<open>
  Claim C9, as amended. Without declared properties (no schema, no \<^verbatim>\<open>properties\<close>, or
  an empty one) the adapter returns the empty shape with passthrough. Otherwise (the
  keys of an object are distinct), when no declared property is named \<^verbatim>\<open>__proto__\<close>, it
  returns a passthrough object whose shape has exactly the declared names, in order; the
  field of each declared property is \<^verbatim>\<open>z.any()\<close> at its base, carries the property's
  description when that is present and not the empty text, and is optional exactly when
  its name is not in the required list. This holds whatever accessors zod's schema objects
  have.
\<close>

theorem zodShapeFromJsonSchema_shape:
  "zodShapeFromJsonSchema accessors None = Inr (ZPassthrough (ZObject []))
   \<and> (properties sch = None \<or> properties sch = Some []
        \<longrightarrow> zodShapeFromJsonSchema accessors (Some sch) = Inr (ZPassthrough (ZObject [])))
   \<and> (properties sch = Some entries \<and> distinct (map fst entries)
        \<and> ''__proto__'' \<notin> set (map fst entries)
        \<longrightarrow> (\<exists>shape.
              zodShapeFromJsonSchema accessors (Some sch) = Inr (ZPassthrough (ZObject shape))
              \<and> map fst shape = map fst entries
              \<and> (\<forall>n pr. (n, pr) \<in> set entries \<longrightarrow>
                   (\<exists>field. map_of shape n = Some field
                      \<and> base_validator field = ZAny
                      \<and> description_of field =
                          (case pr of
                             None \<Rightarrow> None
                           | Some p \<Rightarrow>
                               (case prop_description p of
                                  None \<Rightarrow> None
                                | Some d \<Rightarrow> if d = [] then None else Some d))
                      \<and> (is_optional field \<longleftrightarrow>
                           n \<notin> set (case required sch of None \<Rightarrow> [] | Some r \<Rightarrow> r))))))"
proof (intro conjI impI)
  show "zodShapeFromJsonSchema accessors None = Inr (ZPassthrough (ZObject []))"
    by (rule zodShape_no_properties)
next
  assume "properties sch = None \<or> properties sch = Some []"
  then show "zodShapeFromJsonSchema accessors (Some sch) = Inr (ZPassthrough (ZObject []))"
    using zodShape_no_properties(2,3) by blast
next
  assume a: "properties sch = Some entries \<and> distinct (map fst entries)
      \<and> ''__proto__'' \<notin> set (map fst entries)"
  define req where "req = (case required sch of None \<Rightarrow> [] | Some r \<Rightarrow> r)"
  define shape where "shape = map (\<lambda>e. (fst e, zodField req (fst e) (snd e))) entries"
  have eq: "zodShapeFromJsonSchema accessors (Some sch) = Inr (ZPassthrough (ZObject shape))"
    using a zodShape_properties [of sch entries accessors] by (simp add: shape_def req_def)
  have keys: "map fst shape = map fst entries"
    by (simp add: shape_def comp_def)
  have fields: "\<exists>field. map_of shape n = Some field
        \<and> base_validator field = ZAny
        \<and> description_of field =
            (case pr of
               None \<Rightarrow> None
             | Some p \<Rightarrow>
                 (case prop_description p of
                    None \<Rightarrow> None
                  | Some d \<Rightarrow> if d = [] then None else Some d))
        \<and> (is_optional field \<longleftrightarrow> n \<notin> set req)"
    if mem: "(n, pr) \<in> set entries" for n pr
  proof -
    have "(n, zodField req n pr) \<in> set shape"
      using mem by (force simp: shape_def)
    moreover have "distinct (map fst shape)"
      using a keys by simp
    ultimately have "map_of shape n = Some (zodField req n pr)"
      by simp
    then show ?thesis
      by (simp add: zodField_props)
  qed
  show "\<exists>shape.
      zodShapeFromJsonSchema accessors (Some sch) = Inr (ZPassthrough (ZObject shape))
      \<and> map fst shape = map fst entries
      \<and> (\<forall>n pr. (n, pr) \<in> set entries \<longrightarrow>
           (\<exists>field. map_of shape n = Some field
              \<and> base_validator field = ZAny
              \<and> description_of field =
                  (case pr of
                     None \<Rightarrow> None
                   | Some p \<Rightarrow>
                       (case prop_description p of
                          None \<Rightarrow> None
                        | Some d \<Rightarrow> if d = [] then None else Some d))
              \<and> (is_optional field \<longleftrightarrow>
                   n \<notin> set (case required sch of None \<Rightarrow> [] | Some r \<Rightarrow> r))))"
    using eq keys fields unfolding req_def by blast
qed

text \<open>
  The theorem at a schema with a required, described property \<^verbatim>\<open>path\<close> and an optional,
  undescribed property \<^verbatim>\<open>depth\<close>, and at a schema without properties, with the accessor
  of zod 3.
\<close>

theorem zodShapeFromJsonSchema_shape_witness:
  "\<exists>shape.
     zodShapeFromJsonSchema zod_accessors
       (Some \<lparr> properties = Some [(''path'', Some \<lparr> prop_description = Some ''File path'' \<rparr>),
                                 (''depth'', Some \<lparr> prop_description = None \<rparr>)],
               required = Some [''path''] \<rparr>)
       = Inr (ZPassthrough (ZObject shape))
     \<and> map fst shape = [''path'', ''depth'']
     \<and> (\<exists>field. map_of shape ''path'' = Some field
           \<and> base_validator field = ZAny
           \<and> description_of field = Some ''File path''
           \<and> \<not> is_optional field)
     \<and> (\<exists>field. map_of shape ''depth'' = Some field
           \<and> base_validator field = ZAny
           \<and> description_of field = None
           \<and> is_optional field)
     \<and> zodShapeFromJsonSchema zod_accessors (Some \<lparr> properties = None, required = None \<rparr>)
         = Inr (ZPassthrough (ZObject []))"
  using zodShapeFromJsonSchema_shape
    [of zod_accessors "\<lparr> properties = None, required = None \<rparr>"]
    zodShapeFromJsonSchema_shape
    [of zod_accessors
        "\<lparr> properties = Some [(''path'', Some \<lparr> prop_description = Some ''File path'' \<rparr>),
                              (''depth'', Some \<lparr> prop_description = None \<rparr>)],
            required = Some [''path''] \<rparr>"
        "[(''path'', Some \<lparr> prop_description = Some ''File path'' \<rparr>),
          (''depth'', Some \<lparr> prop_description = None \<rparr>)]"]
  by auto

text \<open>
  Claim C9 as stated fails on two inputs. A description that is present but empty: the
  guard \<^verbatim>\<open>if (prop?.description)\<close> is false for it, and the field is built without
  \<^verbatim>\<open>describe\<close>. A declared property named \<^verbatim>\<open>__proto__\<close>: it gets no field in the shape;
  and when the property \<^verbatim>\<open>description\<close> is declared after it the adapter throws.
\<close>

theorem zodShapeFromJsonSchema_empty_description:
  "zodShapeFromJsonSchema zod_accessors
     (Some \<lparr> properties = Some [(''q'', Some \<lparr> prop_description = Some [] \<rparr>)],
             required = Some [''q''] \<rparr>)
   = Inr (ZPassthrough (ZObject [(''q'', ZAny)]))
   \<and> zodShapeFromJsonSchema zod_accessors
     (Some \<lparr> properties = Some [(''__proto__'', Some \<lparr> prop_description = Some ''x'' \<rparr>)],
             required = None \<rparr>)
   = Inr (ZPassthrough (ZObject []))
   \<and> zodShapeFromJsonSchema zod_accessors
     (Some \<lparr> properties = Some [(''__proto__'', Some \<lparr> prop_description = None \<rparr>),
                               (''description'', Some \<lparr> prop_description = None \<rparr>)],
             required = None \<rparr>)
   = Inl (JError ''Cannot set property description which has only a getter'')"
  by (simp add: zodShapeFromJsonSchema_def zodField_def zod_accessors_def)

section \<open>What each operation leaves unchanged\<close>

lemma scheduleReconnect_frame [simp]:
  "state (scheduleReconnect s) = state s"
  "client (scheduleReconnect s) = client s"
  "transport (scheduleReconnect s) = transport s"
  "closed (scheduleReconnect s) = closed s"
  "reconnectOpts (scheduleReconnect s) = reconnectOpts s"
  "lastToolNames (scheduleReconnect s) = lastToolNames s"
  "registeredToolNames (scheduleReconnect s) = registeredToolNames s"
  "emitted (scheduleReconnect s) = emitted s"
  "bname (scheduleReconnect s) = bname s"
  by (simp_all add: scheduleReconnect_def)

lemma enat_succ_le: "enat n \<le> m \<Longrightarrow> m \<noteq> enat n \<Longrightarrow> enat (Suc n) \<le> m"
  by (cases m) auto

lemma retry_inv_update [simp]:
  "retry_inv (s\<lparr> state := st \<rparr>) = retry_inv s"
  "retry_inv (s\<lparr> client := c \<rparr>) = retry_inv s"
  "retry_inv (s\<lparr> transport := tr \<rparr>) = retry_inv s"
  "retry_inv (s\<lparr> lastToolNames := ns \<rparr>) = retry_inv s"
  "retry_inv (s\<lparr> registeredToolNames := rs \<rparr>) = retry_inv s"
  "retry_inv (s\<lparr> emitted := es \<rparr>) = retry_inv s"
  "retry_inv (s\<lparr> closed := b \<rparr>) = retry_inv s"
  "retry_inv (s\<lparr> reconnectTimer := rt \<rparr>) = retry_inv s"
  "retry_inv (s\<lparr> pending_timers := ps \<rparr>) = retry_inv s"
  "retry_inv (s\<lparr> next_timer := k \<rparr>) = retry_inv s"
  "retry_inv (s\<lparr> retryCount := 0 \<rparr>)"
  by (simp_all add: retry_inv_def zero_enat_def [symmetric])

lemma scheduleReconnect_retry_inv: "retry_inv s \<Longrightarrow> retry_inv (scheduleReconnect s)"
  by (simp add: retry_inv_def scheduleReconnect_def enat_succ_le)

lemma connect_catch_frame [simp]:
  "client (snd (connect_catch e s)) = client s"
  "transport (snd (connect_catch e s)) = transport s"
  "closed (snd (connect_catch e s)) = closed s"
  "reconnectOpts (snd (connect_catch e s)) = reconnectOpts s"
  "lastToolNames (snd (connect_catch e s)) = lastToolNames s"
  "registeredToolNames (snd (connect_catch e s)) = registeredToolNames s"
  "emitted (snd (connect_catch e s)) = emitted s"
  "bname (snd (connect_catch e s)) = bname s"
  by (simp_all add: connect_catch_def split: sum.splits)

lemma connect_catch_not_idle: "state s \<noteq> Idle \<Longrightarrow> state (snd (connect_catch e s)) \<noteq> Idle"
  by (simp add: connect_catch_def split: sum.splits)

lemma connect_catch_retry_inv: "retry_inv s \<Longrightarrow> retry_inv (snd (connect_catch e s))"
  by (simp add: connect_catch_def scheduleReconnect_retry_inv split: sum.splits)

lemma connect_noop:
  "closed s \<or> state s = Connecting \<or> state s = Connected \<Longrightarrow> connect a l s = (Inr (), s)"
  by (auto simp: connect_def)

lemma connect_proceeds_client:
  "\<not> closed s \<Longrightarrow> state s \<noteq> Connecting \<Longrightarrow> state s \<noteq> Connected \<Longrightarrow>
   client (snd (connect a l s)) \<noteq> None \<and> state (snd (connect a l s)) \<noteq> Idle"
  by (simp add: connect_def Let_def connect_catch_not_idle split: open_outcome.splits sum.splits)

lemma connect_frame [simp]:
  "closed (snd (connect a l s)) = closed s"
  "reconnectOpts (snd (connect a l s)) = reconnectOpts s"
  "registeredToolNames (snd (connect a l s)) = registeredToolNames s"
  "bname (snd (connect a l s)) = bname s"
  by (simp_all add: connect_def Let_def split: open_outcome.splits sum.splits)

section \<open>The state is idle exactly when there is no client\<close>

lemma connect_client_inv: "client_inv s \<Longrightarrow> client_inv (snd (connect a l s))"
proof (cases "closed s \<or> state s = Connecting \<or> state s = Connected")
  case True
  assume "client_inv s"
  then show ?thesis using connect_noop [OF True] by simp
next
  case False
  then show ?thesis
    using connect_proceeds_client [of s a l]
    by (simp add: client_inv_def)
qed

lemma close_client_inv: "client_inv s \<Longrightarrow> client_inv (snd (close c s))"
  by (auto simp: close_def Let_def client_inv_def clearTimeout_def transport_onclose_def
      handleDisconnect_def split: option.splits sum.splits)

lemma transport_onclose_client_inv: "client_inv s \<Longrightarrow> client_inv (transport_onclose s)"
  by (auto simp: transport_onclose_def handleDisconnect_def client_inv_def)

lemma discard_stale_client_inv: "client_inv (discard_stale t s)"
  by (simp add: discard_stale_def Let_def client_inv_def clearTimeout_def)

lemma detect_tools_changed_frame [simp]:
  "state (snd (detect_tools_changed l s)) = state s"
  "client (snd (detect_tools_changed l s)) = client s"
  "closed (snd (detect_tools_changed l s)) = closed s"
  "reconnectOpts (snd (detect_tools_changed l s)) = reconnectOpts s"
  "retryCount (snd (detect_tools_changed l s)) = retryCount s"
  "pending_timers (snd (detect_tools_changed l s)) = pending_timers s"
  "next_timer (snd (detect_tools_changed l s)) = next_timer s"
  "reconnectTimer (snd (detect_tools_changed l s)) = reconnectTimer s"
  "registeredToolNames (snd (detect_tools_changed l s)) = registeredToolNames s"
  by (simp_all add: detect_tools_changed_def Let_def split: sum.splits)

lemma reconnect_callback_cases:
  "snd (reconnect_callback t a l1 l2 s) = s
   \<or> snd (reconnect_callback t a l1 l2 s) = snd (connect a l1 (discard_stale t s))
   \<or> snd (reconnect_callback t a l1 l2 s)
        = snd (detect_tools_changed l2 (snd (connect a l1 (discard_stale t s))))"
  by (simp add: reconnect_callback_def split: prod.splits sum.splits)

lemma reconnect_callback_client_inv:
  "client_inv s \<Longrightarrow> client_inv (snd (reconnect_callback t a l1 l2 s))"
  using reconnect_callback_cases [of t a l1 l2 s]
    connect_client_inv [OF discard_stale_client_inv, of a l1 t s]
  by (auto simp: client_inv_def)

lemma registerLoop_frame:
  "\<exists>rs. snd (snd (registerLoop accessors refused tools s)) = s\<lparr> registeredToolNames := rs \<rparr>"
proof (induction tools arbitrary: s)
  case Nil
  have "s = s\<lparr> registeredToolNames := registeredToolNames s \<rparr>" by simp
  then show ?case by (metis registerLoop.simps(1) snd_conv)
next
  case (Cons tool rest)
  have same: "s = s\<lparr> registeredToolNames := registeredToolNames s \<rparr>" by simp
  show ?case
  proof (cases "zodShapeFromJsonSchema accessors (inputSchema tool)")
    case (Inl exn)
    then have "snd (snd (registerLoop accessors refused (tool # rest) s)) = s"
      by simp
    then show ?thesis using same by metis
  next
    case (Inr schema)
    show ?thesis
    proof (cases "name tool \<in> set refused")
      case True
      then have "snd (snd (registerLoop accessors refused (tool # rest) s)) = s"
        using Inr by simp
      then show ?thesis using same by metis
    next
      case False
      obtain rs where
        "snd (snd (registerLoop accessors refused rest
            (s\<lparr> registeredToolNames := set_add (name tool) (registeredToolNames s) \<rparr>)))
          = s\<lparr> registeredToolNames := set_add (name tool) (registeredToolNames s) \<rparr>
             \<lparr> registeredToolNames := rs \<rparr>"
        using Cons.IH by blast
      then show ?thesis using False Inr by (auto split: prod.splits)
    qed
  qed
qed

lemma registerTools_frame:
  "\<exists>rs. snd (snd (registerTools accessors l refused s)) = s\<lparr> registeredToolNames := rs \<rparr>"
proof (cases "listTools l s")
  case (Inl exn)
  have "s = s\<lparr> registeredToolNames := registeredToolNames s \<rparr>" by simp
  then show ?thesis using Inl by (metis registerTools_def sum.simps(5) snd_conv)
next
  case (Inr tools)
  then show ?thesis
    using registerLoop_frame [of accessors refused tools s] by (simp add: registerTools_def)
qed

lemma unregisterTools_frame:
  "\<exists>rs. snd (unregisterTools host s) = s\<lparr> registeredToolNames := rs \<rparr>"
proof (cases host)
  case None
  have "s = s\<lparr> registeredToolNames := registeredToolNames s \<rparr>" by simp
  then show ?thesis using None by (metis unregisterTools_def option.simps(4) snd_conv)
next
  case (Some table)
  then show ?thesis by (auto simp: unregisterTools_def intro: exI [of _ "[]"])
qed

lemma client_inv_registered [simp]: "client_inv (s\<lparr> registeredToolNames := rs \<rparr>) = client_inv s"
  by (simp add: client_inv_def)

lemma step_client_inv: "client_inv s \<Longrightarrow> client_inv (step s tr)"
proof (cases tr)
  case (CallRegisterTools accessors l refused)
  assume "client_inv s"
  then show ?thesis
    using registerTools_frame [of accessors l refused s] CallRegisterTools by auto
next
  case (CallUnregisterTools host)
  assume "client_inv s"
  then show ?thesis
    using unregisterTools_frame [of host s] CallUnregisterTools by auto
qed (simp_all add: connect_client_inv close_client_inv transport_onclose_client_inv
       reconnect_callback_client_inv)

lemma run_client_inv: "client_inv s \<Longrightarrow> client_inv (run s trace)"
  unfolding run_def by (induction trace arbitrary: s) (simp_all add: step_client_inv)

lemma new_client_inv: "client_inv (new_McpBundler options)"
  by (simp add: client_inv_def new_McpBundler_def)

section \<open>The retry counter stays within the maximum\<close>

lemma connect_retry_inv: "retry_inv s \<Longrightarrow> retry_inv (snd (connect a l s))"
  by (simp add: connect_def Let_def connect_catch_retry_inv split: open_outcome.splits sum.splits)

lemma close_retry_inv: "retry_inv s \<Longrightarrow> retry_inv (snd (close c s))"
  by (simp add: close_def Let_def clearTimeout_def transport_onclose_def handleDisconnect_def
      scheduleReconnect_def split: option.splits sum.splits)

lemma transport_onclose_retry_inv: "retry_inv s \<Longrightarrow> retry_inv (transport_onclose s)"
  by (simp add: transport_onclose_def handleDisconnect_def scheduleReconnect_retry_inv)

lemma discard_stale_retry_inv: "retry_inv s \<Longrightarrow> retry_inv (discard_stale t s)"
  by (simp add: discard_stale_def Let_def clearTimeout_def)

lemma detect_tools_changed_retry_inv: "retry_inv s \<Longrightarrow> retry_inv (snd (detect_tools_changed l s))"
  by (simp add: retry_inv_def)

lemma reconnect_callback_retry_inv:
  "retry_inv s \<Longrightarrow> retry_inv (snd (reconnect_callback t a l1 l2 s))"
  using reconnect_callback_cases [of t a l1 l2 s]
    connect_retry_inv [OF discard_stale_retry_inv, of s a l1 t]
    detect_tools_changed_retry_inv [OF connect_retry_inv [OF discard_stale_retry_inv], of s l2 a l1 t]
  by auto

lemma step_retry_inv: "retry_inv s \<Longrightarrow> retry_inv (step s tr)"
proof (cases tr)
  case (CallRegisterTools accessors l refused)
  assume "retry_inv s"
  then show ?thesis
    using registerTools_frame [of accessors l refused s] CallRegisterTools by auto
next
  case (CallUnregisterTools host)
  assume "retry_inv s"
  then show ?thesis
    using unregisterTools_frame [of host s] CallUnregisterTools by auto
qed (simp_all add: connect_retry_inv close_retry_inv transport_onclose_retry_inv
       reconnect_callback_retry_inv)

lemma run_retry_inv: "retry_inv s \<Longrightarrow> retry_inv (run s trace)"
  unfolding run_def by (induction trace arbitrary: s) (simp_all add: step_retry_inv)

lemma new_retry_inv: "retry_inv (new_McpBundler options)"
  by (simp add: retry_inv_def new_McpBundler_def zero_enat_def [symmetric])

section \<open>After shutdown\<close>

lemma close_shut_down:
  "fst (close c s) = Inr () \<Longrightarrow> shut_down (snd (close c s)) \<and> reconnectTimer (snd (close c s)) = None"
  by (auto simp: close_def Let_def shut_down_def clearTimeout_def transport_onclose_def
      handleDisconnect_def scheduleReconnect_def split: option.splits sum.splits)

lemma quiet_refl: "shut_down s \<Longrightarrow> quiet s s"
  by (simp add: quiet_def)

lemma quiet_registered: "shut_down s \<Longrightarrow> quiet s (s\<lparr> registeredToolNames := rs \<rparr>)"
  by (simp add: quiet_def shut_down_def)

lemma quiet_discard_stale: "shut_down s \<Longrightarrow> quiet s (discard_stale t s)"
  by (auto simp: quiet_def discard_stale_def Let_def shut_down_def clearTimeout_def)

lemma quiet_close: "shut_down s \<Longrightarrow> quiet s (snd (close x s))"
  by (auto simp: quiet_def close_def Let_def shut_down_def clearTimeout_def split: option.splits)

lemma shut_down_connect: "shut_down s \<Longrightarrow> connect a l s = (Inr (), s)"
  by (simp add: connect_noop shut_down_def)

lemma shut_down_detect: "shut_down s \<Longrightarrow> detect_tools_changed l s = (Inr (), s)"
  by (simp add: detect_tools_changed_def shut_down_def)

lemma quiet_reconnect_callback:
  assumes "shut_down s"
  shows "quiet s (snd (reconnect_callback t a l1 l2 s))"
proof -
  have q: "quiet s (discard_stale t s)"
    using assms by (rule quiet_discard_stale)
  then have sd: "shut_down (discard_stale t s)"
    by (simp add: quiet_def)
  have "snd (reconnect_callback t a l1 l2 s) = s
      \<or> snd (reconnect_callback t a l1 l2 s) = discard_stale t s"
    by (simp add: reconnect_callback_def shut_down_connect [OF sd] shut_down_detect [OF sd])
  then show ?thesis
    using q quiet_refl [OF assms] by auto
qed

lemma quiet_onclose: "shut_down s \<Longrightarrow> quiet s (transport_onclose s)"
  by (simp add: transport_onclose_def shut_down_def quiet_def)

lemma quiet_step:
  assumes "shut_down s"
  shows "quiet s (step s tr)"
proof (cases tr)
  case (CallConnect a l)
  then show ?thesis
    using assms by (simp add: shut_down_connect quiet_refl)
next
  case (CallClose x)
  then show ?thesis
    using assms by (simp add: quiet_close)
next
  case TransportClosed
  then show ?thesis
    using assms by (simp add: quiet_onclose)
next
  case (TimerFires t a l1 l2)
  then show ?thesis
    using assms by (simp add: quiet_reconnect_callback)
next
  case (CallRegisterTools accessors l refused)
  obtain rs where
    "snd (snd (registerTools accessors l refused s)) = s\<lparr> registeredToolNames := rs \<rparr>"
    using registerTools_frame by blast
  then show ?thesis
    using assms CallRegisterTools by (simp add: quiet_registered)
next
  case (CallUnregisterTools host)
  obtain rs where "snd (unregisterTools host s) = s\<lparr> registeredToolNames := rs \<rparr>"
    using unregisterTools_frame by blast
  then show ?thesis
    using assms CallUnregisterTools by (simp add: quiet_registered)
qed

lemma quiet_trans: "quiet s s' \<Longrightarrow> quiet s' s'' \<Longrightarrow> quiet s s''"
  by (auto simp: quiet_def)

lemma quiet_run: "shut_down s \<Longrightarrow> quiet s (run s trace)"
proof (induction trace arbitrary: s)
  case Nil
  then show ?case by (simp add: run_def quiet_refl)
next
  case (Cons tr trace)
  have a: "quiet s (step s tr)"
    using Cons.prems by (rule quiet_step)
  then have "shut_down (step s tr)"
    by (simp add: quiet_def)
  then have "quiet (step s tr) (run (step s tr) trace)"
    by (rule Cons.IH)
  then show ?case
    using a by (simp add: run_def quiet_trans)
qed

text \<open>
  After a \<^verbatim>\<open>close\<close> that returns, whatever trigger comes: the manager stays shut down
  (closed, idle, no client), so every \<^verbatim>\<open>connect\<close> is a no-op; no timer is armed any
  more (the next fresh handle stays); nothing is emitted; the snapshot and the retry
  counter stay. A timer that was left armed can still fire, and changes none of this.
\<close>

lemma close_then_quiet:
  assumes "fst (close c s) = Inr ()"
  shows "quiet (snd (close c s)) (run (snd (close c s)) trace)"
  using close_shut_down [OF assms] quiet_run by blast

section \<open>A trigger is its segments in a row\<close>

lemma listTools_segments: "listTools remote s = listTools_result (listTools_asks s) remote"
  by (simp add: listTools_def listTools_result_def listTools_asks_def)

lemma segments_simps [simp]:
  "segments c [] = c"
  "segments c (a # acts) = segments (segment c a) acts"
  by (simp_all add: segments_def)

lemma segments_append: "segments c (acts @ later) = segments (segments c acts) later"
  by (simp add: segments_def)

lemma connect_returns_ByCaller [simp]: "connect_returns ByCaller r = (snd r, [])"
  by (simp add: connect_returns_def)

lemma connect_returns_ByTimer [simp]: "connect_returns ByTimer r = (snd r, [AwaitConnect (fst r)])"
  by (simp add: connect_returns_def)

lemma connect_in_a_row:
  "segments (s, []) (in_a_row (CallConnect attempt listing)) = (snd (connect attempt listing s), [])"
  by (cases attempt)
     (simp_all add: connect_def connect_begin_def connect_opened_def connect_listed_def Let_def
        listTools_segments open_answer_of_def split: sum.splits)

lemma close_in_a_row:
  "segments (s, []) (in_a_row (CallClose closing)) = (snd (close closing s), [])"
  by (simp add: close_def close_begin_def close_settled_def Let_def transport_onclose_def
      clearTimeout_def split: option.splits sum.splits)

lemma connect_by_timer:
  "segments (connect_begin ByTimer (attempt \<noteq> UrlInvalid) s)
     [Resume 0 (Stale_close_answer b), Resume 0 (Open_answer (open_answer_of attempt)),
      Resume 0 (List_answer listing)]
   = (snd (connect attempt listing s), [AwaitConnect (fst (connect attempt listing s))])"
  by (cases attempt)
     (simp_all add: connect_def connect_begin_def connect_opened_def connect_listed_def Let_def
        listTools_segments open_answer_of_def split: sum.splits)

lemma callback_tail:
  "segments (s, [AwaitConnect r]) [Resume 0 Connect_answer, Resume 0 (List_answer listing2)]
   = (snd (case r of Inl exn \<Rightarrow> (Inl exn, s) | Inr u \<Rightarrow> detect_tools_changed listing2 s), [])"
  by (simp add: callback_connected_def callback_listed_def detect_tools_changed_def Let_def
      listTools_segments split: sum.splits)

lemma callback_in_a_row:
  "segments (s, []) (in_a_row (TimerFires t attempt listing1 listing2))
   = (snd (reconnect_callback t attempt listing1 listing2 s), [])"
proof (cases "t \<in> set (pending_timers s)")
  case False
  then show ?thesis
    by (simp add: callback_begin_def reconnect_callback_def)
next
  case True
  define ok where "ok = (attempt \<noteq> UrlInvalid)"
  define s1 where "s1 = (clearTimeout t s)\<lparr> reconnectTimer := None, state := Idle \<rparr>"
  have d: "discard_stale t s = (if client s1 \<noteq> None then s1\<lparr> client := None, transport := None \<rparr> else s1)"
    by (simp add: discard_stale_def s1_def Let_def)
  have "segments (s, [])
          [Timer_fires t ok, Resume 0 (Stale_close_answer ok),
           Resume 0 (Open_answer (open_answer_of attempt)), Resume 0 (List_answer listing1)]
        = (snd (connect attempt listing1 (discard_stale t s)),
           [AwaitConnect (fst (connect attempt listing1 (discard_stale t s)))])"
  proof (cases "client s1 \<noteq> None")
    case True
    have "segments (s, [])
          [Timer_fires t ok, Resume 0 (Stale_close_answer ok),
           Resume 0 (Open_answer (open_answer_of attempt)), Resume 0 (List_answer listing1)]
        = segments (connect_begin ByTimer ok (s1\<lparr> client := None, transport := None \<rparr>))
           [Resume 0 (Open_answer (open_answer_of attempt)), Resume 0 (List_answer listing1)]"
      using \<open>t \<in> set (pending_timers s)\<close> True
      by (auto simp: callback_begin_def callback_stale_closed_def Let_def s1_def)
    also have "\<dots> = segments (connect_begin ByTimer ok (s1\<lparr> client := None, transport := None \<rparr>))
           [Resume 0 (Stale_close_answer ok), Resume 0 (Open_answer (open_answer_of attempt)),
            Resume 0 (List_answer listing1)]"
      by (cases attempt)
         (simp_all add: connect_begin_def ok_def Let_def connect_catch_def split: sum.splits)
    finally show ?thesis
      using True connect_by_timer [of attempt "s1\<lparr> client := None, transport := None \<rparr>" ok listing1]
      by (simp add: d ok_def)
  next
    case False
    have "segments (s, [])
          [Timer_fires t ok, Resume 0 (Stale_close_answer ok),
           Resume 0 (Open_answer (open_answer_of attempt)), Resume 0 (List_answer listing1)]
        = segments (connect_begin ByTimer ok s1)
           [Resume 0 (Stale_close_answer ok), Resume 0 (Open_answer (open_answer_of attempt)),
            Resume 0 (List_answer listing1)]"
      using \<open>t \<in> set (pending_timers s)\<close> False
      by (cases "connect_begin ByTimer ok s1") (simp add: callback_begin_def Let_def s1_def)
    then show ?thesis
      using False connect_by_timer [of attempt s1 ok listing1]
      by (simp add: d ok_def)
  qed
  then have "segments (s, []) (in_a_row (TimerFires t attempt listing1 listing2))
      = segments (snd (connect attempt listing1 (discard_stale t s)),
           [AwaitConnect (fst (connect attempt listing1 (discard_stale t s)))])
          [Resume 0 Connect_answer, Resume 0 (List_answer listing2)]"
    using segments_append
      [of "(s, [])" "[Timer_fires t ok, Resume 0 (Stale_close_answer ok),
           Resume 0 (Open_answer (open_answer_of attempt)), Resume 0 (List_answer listing1)]"
          "[Resume 0 Connect_answer, Resume 0 (List_answer listing2)]"]
    by (simp add: ok_def)
  then show ?thesis
    using True
    by (simp only: callback_tail)
       (simp add: reconnect_callback_def split: prod.splits sum.splits)
qed

lemma registerTools_in_a_row:
  "segments (s, []) (in_a_row (CallRegisterTools accessors listing refused))
   = (snd (snd (registerTools accessors listing refused s)), [])"
  by (simp add: register_listed_def registerTools_def listTools_segments split: sum.splits)

text \<open>
  A trigger of \<open>step\<close> is the segments of its operation with nothing in between: what
  holds of every run of segments holds of every run of triggers.
\<close>

lemma in_a_row_step: "segments (s, []) (in_a_row tr) = (step s tr, [])"
proof (cases tr)
  case (CallConnect attempt listing)
  then show ?thesis using connect_in_a_row by simp
next
  case (CallClose closing)
  then show ?thesis using close_in_a_row by simp
next
  case TransportClosed
  then show ?thesis by simp
next
  case (TimerFires t attempt listing1 listing2)
  then show ?thesis using callback_in_a_row by simp
next
  case (CallRegisterTools accessors listing refused)
  then show ?thesis using registerTools_in_a_row by simp
next
  case (CallUnregisterTools host)
  then show ?thesis by simp
qed

lemma triggers_in_a_row: "segments (s, []) (concat (map in_a_row trace)) = (run s trace, [])"
proof (induction trace arbitrary: s)
  case Nil
  then show ?case by (simp add: run_def)
next
  case (Cons tr trace)
  have "segments (s, []) (in_a_row tr @ concat (map in_a_row trace))
      = segments (step s tr, []) (concat (map in_a_row trace))"
    by (simp only: segments_append in_a_row_step)
  then show ?case
    using Cons.IH [of "step s tr"] by (simp add: run_def)
qed

lemma one_at_a_time_append:
  "one_at_a_time c (acts @ later) \<longleftrightarrow>
     one_at_a_time c acts \<and> one_at_a_time (segments c acts) later"
  by (induction acts arbitrary: c) auto

lemma one_at_a_time_resumes: "\<forall>a \<in> set acts. \<not> begins a \<Longrightarrow> one_at_a_time c acts"
  by (induction acts arbitrary: c) auto

lemma one_at_a_time_in_a_row: "one_at_a_time (s, []) (in_a_row tr)"
  by (cases tr) (simp_all add: one_at_a_time_resumes)

lemma one_at_a_time_triggers: "one_at_a_time (s, []) (concat (map in_a_row trace))"
proof (induction trace arbitrary: s)
  case Nil
  then show ?case by simp
next
  case (Cons tr trace)
  then show ?case
    by (simp add: one_at_a_time_append one_at_a_time_in_a_row in_a_row_step)
qed

section \<open>The retry counter in runs of segments\<close>

lemma connect_returns_state [simp]: "fst (connect_returns who r) = snd r"
  by (cases who) simp_all

lemma connect_begin_retry_inv: "retry_inv s \<Longrightarrow> retry_inv (fst (connect_begin who ok s))"
  by (simp add: connect_begin_def Let_def connect_catch_retry_inv)

lemma connect_opened_retry_inv: "retry_inv s \<Longrightarrow> retry_inv (fst (connect_opened who opened s))"
  by (simp add: connect_opened_def Let_def connect_catch_retry_inv split: sum.splits)

lemma connect_listed_retry_inv:
  "retry_inv s \<Longrightarrow> retry_inv (fst (connect_listed who asked remote s))"
  by (simp add: connect_listed_def connect_catch_retry_inv split: sum.splits)

lemma close_begin_retry_inv: "retry_inv s \<Longrightarrow> retry_inv (fst (close_begin s))"
  by (simp add: close_begin_def Let_def clearTimeout_def split: option.splits)

lemma close_settled_retry_inv: "retry_inv s \<Longrightarrow> retry_inv (close_settled settled s)"
  by (simp add: close_settled_def split: sum.splits)

lemma callback_begin_retry_inv: "retry_inv s \<Longrightarrow> retry_inv (fst (callback_begin t ok s))"
  by (simp add: callback_begin_def Let_def clearTimeout_def connect_begin_retry_inv)

lemma callback_stale_closed_retry_inv:
  "retry_inv s \<Longrightarrow> retry_inv (fst (callback_stale_closed ok s))"
  by (simp add: callback_stale_closed_def connect_begin_retry_inv)

lemma callback_connected_retry_inv: "retry_inv s \<Longrightarrow> retry_inv (fst (callback_connected r s))"
  by (simp add: callback_connected_def split: sum.splits)

lemma callback_listed_retry_inv: "retry_inv s \<Longrightarrow> retry_inv (callback_listed asked remote s)"
  by (simp add: callback_listed_def Let_def split: sum.splits)

lemma register_listed_retry_inv:
  assumes "retry_inv s"
  shows "retry_inv (register_listed asked accessors remote refused s)"
proof (cases "listTools_result asked remote")
  case (Inl exn)
  then show ?thesis using assms by (simp add: register_listed_def)
next
  case (Inr tools)
  obtain rs where
    "snd (snd (registerLoop accessors refused tools s)) = s\<lparr> registeredToolNames := rs \<rparr>"
    using registerLoop_frame by blast
  then show ?thesis using assms Inr by (simp add: register_listed_def)
qed

lemma resume_retry_inv: "retry_inv s \<Longrightarrow> resume k a s = Some c \<Longrightarrow> retry_inv (fst c)"
  by (cases "(k, a, s)" rule: resume.cases)
     (auto simp: connect_opened_retry_inv connect_listed_retry_inv close_settled_retry_inv
        callback_stale_closed_retry_inv callback_connected_retry_inv callback_listed_retry_inv
        register_listed_retry_inv)

lemma segment_retry_inv:
  assumes "retry_inv (fst c)"
  shows "retry_inv (fst (segment c a))"
proof -
  obtain s pool where c: "c = (s, pool)"
    by (cases c)
  show ?thesis
  proof (cases a)
    case (Begin_connect ok)
    then show ?thesis
      using assms c connect_begin_retry_inv [of s ByCaller ok]
      by (cases "connect_begin ByCaller ok s") simp
  next
    case Begin_close
    then show ?thesis
      using assms c close_begin_retry_inv [of s]
      by (cases "close_begin s") simp
  next
    case Signal_onclose
    then show ?thesis
      using assms c by (simp add: transport_onclose_retry_inv)
  next
    case (Timer_fires t ok)
    then show ?thesis
      using assms c callback_begin_retry_inv [of s t ok]
      by (cases "callback_begin t ok s") simp
  next
    case Begin_registerTools
    then show ?thesis
      using assms c by simp
  next
    case (Call_unregisterTools host)
    obtain rs where "snd (unregisterTools host s) = s\<lparr> registeredToolNames := rs \<rparr>"
      using unregisterTools_frame by blast
    then show ?thesis
      using assms c Call_unregisterTools by simp
  next
    case (Resume i answer)
    show ?thesis
    proof (cases "i < length pool")
      case True
      then show ?thesis
        using assms c Resume resume_retry_inv [of s "pool ! i" answer]
        by (cases "resume (pool ! i) answer s") auto
    next
      case False
      then show ?thesis using assms c Resume by simp
    qed
  qed
qed

text \<open>
  In every run of segments, whatever overlaps, the retry counter is at most
  \<^verbatim>\<open>maxRetries\<close>.
\<close>

lemma segments_retry_inv: "retry_inv (fst c) \<Longrightarrow> retry_inv (fst (segments c acts))"
  by (induction acts arbitrary: c) (simp_all add: segment_retry_inv)

section \<open>Connection object and state\<close>

lemma connect_returns_inv: "client_inv (snd r) \<Longrightarrow> orderly_inv (connect_returns who r)"
  by (cases who) (simp_all add: orderly_inv_def)

lemma busy_client_inv: "state s \<noteq> Idle \<Longrightarrow> client s \<noteq> None \<Longrightarrow> client_inv s"
  by (simp add: client_inv_def)

lemma connect_catch_busy:
  "state s \<noteq> Idle \<Longrightarrow> client s \<noteq> None \<Longrightarrow> client_inv (snd (connect_catch e s))"
  by (rule busy_client_inv) (simp_all add: connect_catch_not_idle)

lemma connect_begin_inv: "client_inv s \<Longrightarrow> orderly_inv (connect_begin who ok s)"
  by (simp add: connect_begin_def Let_def connect_returns_inv connect_catch_busy)
     (simp add: orderly_inv_def)

lemma connect_opened_inv:
  "state s \<noteq> Idle \<Longrightarrow> client s \<noteq> None \<Longrightarrow> orderly_inv (connect_opened who opened s)"
  by (simp add: connect_opened_def Let_def connect_returns_inv connect_catch_busy split: sum.splits)
     (simp add: orderly_inv_def)

lemma connect_listed_inv:
  "state s \<noteq> Idle \<Longrightarrow> client s \<noteq> None \<Longrightarrow> orderly_inv (connect_listed who asked remote s)"
  by (simp add: connect_listed_def connect_returns_inv connect_catch_busy busy_client_inv
      split: sum.splits)

lemma close_begin_inv: "client_inv s \<Longrightarrow> orderly_inv (close_begin s)"
  by (auto simp: close_begin_def Let_def client_inv_def clearTimeout_def orderly_inv_def
      split: option.splits)

lemma close_settled_inv:
  "state s \<noteq> Idle \<Longrightarrow> client s \<noteq> None \<Longrightarrow> client_inv (close_settled settled s)"
  by (simp add: close_settled_def client_inv_def split: sum.splits)

lemma callback_begin_inv:
  assumes "client_inv s"
  shows "orderly_inv (callback_begin t ok s)"
proof (cases "t \<in> set (pending_timers s)")
  case False
  then show ?thesis
    using assms by (simp add: callback_begin_def orderly_inv_def)
next
  case True
  define s1 where "s1 = (clearTimeout t s)\<lparr> reconnectTimer := None, state := Idle \<rparr>"
  show ?thesis
  proof (cases "client s1 = None")
    case True
    then have "client_inv s1"
      by (simp add: client_inv_def s1_def)
    then have "orderly_inv (connect_begin ByTimer ok s1)"
      by (rule connect_begin_inv)
    then show ?thesis
      using True \<open>t \<in> set (pending_timers s)\<close>
      by (simp add: callback_begin_def Let_def s1_def)
  next
    case False
    then show ?thesis
      using \<open>t \<in> set (pending_timers s)\<close>
      by (simp add: callback_begin_def Let_def s1_def orderly_inv_def)
  qed
qed

lemma callback_stale_closed_inv: "state s = Idle \<Longrightarrow> orderly_inv (callback_stale_closed ok s)"
  by (simp add: callback_stale_closed_def connect_begin_inv client_inv_def)

lemma callback_connected_inv: "client_inv s \<Longrightarrow> orderly_inv (callback_connected r s)"
  by (simp add: callback_connected_def orderly_inv_def split: sum.splits)

lemma callback_listed_inv: "client_inv s \<Longrightarrow> client_inv (callback_listed asked remote s)"
  by (simp add: callback_listed_def Let_def client_inv_def split: sum.splits)

lemma transport_onclose_task_inv: "task_inv k s \<Longrightarrow> task_inv k (transport_onclose s)"
  by (cases k)
     (auto simp: transport_onclose_def handleDisconnect_def client_inv_def)

lemma transport_onclose_held_by: "held_by ks s \<Longrightarrow> held_by ks (transport_onclose s)"
  by (cases "(ks, s)" rule: held_by.cases)
     (simp_all add: transport_onclose_task_inv transport_onclose_client_inv)

lemma registered_task_inv: "task_inv k (s\<lparr> registeredToolNames := rs \<rparr>) = task_inv k s"
  by (cases k) simp_all

lemma registered_held_by: "held_by ks (s\<lparr> registeredToolNames := rs \<rparr>) = held_by ks s"
  by (cases "(ks, s)" rule: held_by.cases) (simp_all add: registered_task_inv)

lemma register_listed_held_by:
  "held_by ks (register_listed asked accessors remote refused s) = held_by ks s"
proof (cases "listTools_result asked remote")
  case (Inl exn)
  then show ?thesis by (simp add: register_listed_def)
next
  case (Inr tools)
  obtain rs where
    "snd (snd (registerLoop accessors refused tools s)) = s\<lparr> registeredToolNames := rs \<rparr>"
    using registerLoop_frame by blast
  then show ?thesis using Inr by (simp add: register_listed_def registered_held_by)
qed

text \<open>Resuming the operation on the connection: what it leaves suspended is again an
  operation on the connection, in the relation.\<close>

lemma resume_inv:
  "of_connection k \<Longrightarrow> task_inv k s \<Longrightarrow> resume k a s = Some c \<Longrightarrow>
   held_by (snd c) (fst c) \<and> filter of_connection (snd c) = snd c"
proof (cases "(k, a, s)" rule: resume.cases)
  case (1 who opened s')
  assume "task_inv k s" and "resume k a s = Some c"
  then show ?thesis
    using 1 connect_opened_inv [of s who opened]
    by (cases who; cases opened)
       (auto simp: orderly_inv_def connect_opened_def Let_def)
next
  case (2 who asked remote s')
  assume "task_inv k s" and "resume k a s = Some c"
  then show ?thesis
    using 2 connect_listed_inv [of s who asked remote]
    by (cases who)
       (auto simp: orderly_inv_def connect_listed_def split: sum.splits)
next
  case (3 settled s')
  assume "task_inv k s" and "resume k a s = Some c"
  then show ?thesis
    using 3 by (auto simp: close_settled_inv)
next
  case (4 ok s')
  assume "task_inv k s" and "resume k a s = Some c"
  then show ?thesis
    using 4 callback_stale_closed_inv [of s ok]
    by (auto simp: orderly_inv_def callback_stale_closed_def connect_begin_def Let_def)
next
  case (5 r s')
  assume "task_inv k s" and "resume k a s = Some c"
  then show ?thesis
    using 5 by (auto simp: callback_connected_def split: sum.splits)
next
  case (6 asked remote s')
  assume "task_inv k s" and "resume k a s = Some c"
  then show ?thesis
    using 6 by (auto simp: callback_listed_inv)
next
  case (7 asked accessors remote refused s')
  assume "of_connection k"
  then show ?thesis using 7 by simp
qed auto

lemma held_by_length: "held_by ks s \<Longrightarrow> length ks \<le> 1"
  by (cases "(ks, s)" rule: held_by.cases) simp_all

lemma held_by_single:
  assumes "held_by (before @ k # after) s"
  shows "before = [] \<and> after = []"
  using held_by_length [OF assms] by simp

lemma segment_orderly_inv:
  assumes "orderly_inv c" and "begins a \<longrightarrow> filter of_connection (snd c) = []"
  shows "orderly_inv (segment c a)"
proof -
  obtain s pool where c: "c = (s, pool)"
    by (cases c)
  have held: "held_by (filter of_connection pool) s"
    using assms(1) c by (simp add: orderly_inv_def)
  show ?thesis
  proof (cases a)
    case (Begin_connect ok)
    then have "client_inv s"
      using assms(2) c held by simp
    then show ?thesis
      using Begin_connect assms(2) c connect_begin_inv [of s ByCaller ok]
      by (cases "connect_begin ByCaller ok s") (simp add: orderly_inv_def)
  next
    case Begin_close
    then have "client_inv s"
      using assms(2) c held by simp
    then show ?thesis
      using Begin_close assms(2) c close_begin_inv [of s]
      by (cases "close_begin s") (simp add: orderly_inv_def)
  next
    case Signal_onclose
    then show ?thesis
      using c held by (simp add: orderly_inv_def transport_onclose_held_by)
  next
    case (Timer_fires t ok)
    then have "client_inv s"
      using assms(2) c held by simp
    then show ?thesis
      using Timer_fires assms(2) c callback_begin_inv [of s t ok]
      by (cases "callback_begin t ok s") (simp add: orderly_inv_def)
  next
    case Begin_registerTools
    then show ?thesis
      using c held by (simp add: orderly_inv_def)
  next
    case (Call_unregisterTools host)
    obtain rs where "snd (unregisterTools host s) = s\<lparr> registeredToolNames := rs \<rparr>"
      using unregisterTools_frame by blast
    then show ?thesis
      using c held Call_unregisterTools by (simp add: orderly_inv_def registered_held_by)
  next
    case (Resume i answer)
    show ?thesis
    proof (cases "i < length pool")
      case False
      then show ?thesis using c held Resume by (simp add: orderly_inv_def)
    next
      case True
      define k where "k = pool ! i"
      have pool: "pool = take i pool @ k # drop (Suc i) pool"
        using True by (simp add: k_def id_take_nth_drop)
      show ?thesis
      proof (cases "resume k answer s")
        case None
        then show ?thesis using c held Resume True by (simp add: orderly_inv_def k_def)
      next
        case (Some c')
        obtain s' new where c': "c' = (s', new)"
          by (cases c')
        have result: "segment c a = (s', take i pool @ new @ drop (Suc i) pool)"
          using c Resume True Some c' by (simp add: k_def)
        show ?thesis
        proof (cases "of_connection k")
          case True
          have "held_by (filter of_connection (take i pool) @ k
                  # filter of_connection (drop (Suc i) pool)) s"
            using held True by (subst (asm) pool) simp
          then have none: "filter of_connection (take i pool) = []"
              "filter of_connection (drop (Suc i) pool) = []"
              and k: "task_inv k s"
            using held_by_single by fastforce+
          have "held_by new s' \<and> filter of_connection new = new"
            using resume_inv [OF True k Some] c' by simp
          then show ?thesis
            using none by (simp add: result orderly_inv_def)
        next
          case False
          then obtain asked where asked: "k = AwaitRegisterListing asked"
            by (cases k) simp_all
          then obtain accessors remote refused where
            "s' = register_listed asked accessors remote refused s" and "new = []"
            using Some c' by (cases answer) auto
          moreover have "filter of_connection (take i pool @ drop (Suc i) pool)
              = filter of_connection pool"
            using False by (subst (2) pool) simp
          ultimately show ?thesis
            using held by (simp add: result orderly_inv_def register_listed_held_by)
        qed
      qed
    qed
  qed
qed

lemma segments_orderly_inv:
  "orderly_inv c \<Longrightarrow> one_at_a_time c acts \<Longrightarrow> orderly_inv (segments c acts)"
  by (induction acts arbitrary: c) (simp_all add: segment_orderly_inv)

lemma new_orderly_inv: "orderly_inv (new_McpBundler options, [])"
  by (simp add: new_client_inv orderly_inv_def)

lemma orderly_inv_cases:
  assumes "orderly_inv (s, pool)"
  shows "(state s = Connected \<longrightarrow> client s \<noteq> None)
     \<and> (state s = Connecting \<longrightarrow> client s \<noteq> None)
     \<and> (state s = Disconnected \<longrightarrow> client s \<noteq> None)
     \<and> (state s = Idle \<and> client s \<noteq> None \<longleftrightarrow> AwaitStaleClose \<in> set pool)
     \<and> length (filter of_connection pool) \<le> 1"
proof -
  have held: "held_by (filter of_connection pool) s"
    using assms by (simp add: orderly_inv_def)
  have mem: "AwaitStaleClose \<in> set pool \<longleftrightarrow> AwaitStaleClose \<in> set (filter of_connection pool)"
    by simp
  show ?thesis
  proof (cases "(filter of_connection pool, s)" rule: held_by.cases)
    case (1 s')
    then show ?thesis using held mem by (auto simp: client_inv_def)
  next
    case (2 k s')
    then show ?thesis using held mem by (cases k) (auto simp: client_inv_def)
  next
    case (3 k k' ks s')
    then show ?thesis using held by simp
  qed
qed

text \<open>
  Claim C3, as amended. Take any run of segments from a new manager in which the
  operations on the connection do not overlap: no \<^verbatim>\<open>connect\<close>, no \<^verbatim>\<open>close\<close> and no
  timer callback begins while one of them is suspended at an \<^verbatim>\<open>await\<close> (closure
  signals, \<^verbatim>\<open>registerTools\<close> and \<^verbatim>\<open>unregisterTools\<close> come at any time). In every state
  that it reaches: if the state is connected a client object exists; if the state is idle
  none exists, except while the reconnect callback awaits the close of the stale client,
  and only then; if the state is disconnected, or connecting, a client object exists (a
  disconnected manager holds the client of the failed or lost connection until the next
  reconnect callback or \<^verbatim>\<open>close\<close> discards it). At most one operation on the connection
  is suspended.
\<close>

theorem connection_object_by_state:
  assumes "one_at_a_time (new_McpBundler options, []) acts"
    and "segments (new_McpBundler options, []) acts = (s, pool)"
  shows "(state s = Connected \<longrightarrow> client s \<noteq> None)
     \<and> (state s = Idle \<longrightarrow> client s = None \<or> AwaitStaleClose \<in> set pool)
     \<and> (AwaitStaleClose \<in> set pool \<longrightarrow> state s = Idle \<and> client s \<noteq> None)
     \<and> (state s = Disconnected \<longrightarrow> client s \<noteq> None)
     \<and> (state s = Connecting \<longrightarrow> client s \<noteq> None)
     \<and> length (filter of_connection pool) \<le> 1"
proof -
  have "orderly_inv (s, pool)"
    using segments_orderly_inv [OF new_orderly_inv assms(1)] assms(2) by simp
  then show ?thesis
    using orderly_inv_cases [of s pool] by blast
qed

text \<open>
  The theorem on four runs: a connect that succeeds, one segment after the other; a
  connect whose open is refused, followed by the reconnect timer, up to the \<^verbatim>\<open>await\<close> of
  the stale client's close; that refused connect alone; and a connect up to the
  \<^verbatim>\<open>await\<close> of the open.
\<close>

theorem connection_object_by_state_witness:
  "one_at_a_time (new_McpBundler test_options, [])
        (in_a_row (CallConnect Opened (Inr [plain_tool ''a''])))
   \<and> state (fst (segments (new_McpBundler test_options, [])
        (in_a_row (CallConnect Opened (Inr [plain_tool ''a'']))))) = Connected
   \<and> client (fst (segments (new_McpBundler test_options, [])
        (in_a_row (CallConnect Opened (Inr [plain_tool ''a'']))))) \<noteq> None
   \<and> one_at_a_time (new_McpBundler reconnect_test_options, [])
        [Begin_connect True, Resume 0 (Open_answer (Inl (JError ''fetch failed''))),
         Timer_fires 0 True]
   \<and> snd (segments (new_McpBundler reconnect_test_options, [])
        [Begin_connect True, Resume 0 (Open_answer (Inl (JError ''fetch failed''))),
         Timer_fires 0 True]) = [AwaitStaleClose]
   \<and> state (fst (segments (new_McpBundler reconnect_test_options, [])
        [Begin_connect True, Resume 0 (Open_answer (Inl (JError ''fetch failed''))),
         Timer_fires 0 True])) = Idle
   \<and> client (fst (segments (new_McpBundler reconnect_test_options, [])
        [Begin_connect True, Resume 0 (Open_answer (Inl (JError ''fetch failed''))),
         Timer_fires 0 True])) \<noteq> None
   \<and> one_at_a_time (new_McpBundler test_options, [])
        [Begin_connect True, Resume 0 (Open_answer (Inl (JError ''fetch failed'')))]
   \<and> state (fst (segments (new_McpBundler test_options, [])
        [Begin_connect True, Resume 0 (Open_answer (Inl (JError ''fetch failed'')))])) = Disconnected
   \<and> client (fst (segments (new_McpBundler test_options, [])
        [Begin_connect True, Resume 0 (Open_answer (Inl (JError ''fetch failed'')))])) \<noteq> None
   \<and> one_at_a_time (new_McpBundler test_options, [])
        [Begin_connect True]
   \<and> state (fst (segments (new_McpBundler test_options, [])
        [Begin_connect True])) = Connecting
   \<and> client (fst (segments (new_McpBundler test_options, [])
        [Begin_connect True])) \<noteq> None"
proof -
  obtain s1 pool1 where w1: "segments (new_McpBundler test_options, [])
        (in_a_row (CallConnect Opened (Inr [plain_tool ''a'']))) = (s1, pool1)"
    by (metis surj_pair)
  have a1: "one_at_a_time (new_McpBundler test_options, [])
        (in_a_row (CallConnect Opened (Inr [plain_tool ''a''])))"
    by code_simp
  obtain s2 pool2 where w2: "segments (new_McpBundler reconnect_test_options, [])
        [Begin_connect True, Resume 0 (Open_answer (Inl (JError ''fetch failed''))),
         Timer_fires 0 True] = (s2, pool2)"
    by (metis surj_pair)
  have a2: "one_at_a_time (new_McpBundler reconnect_test_options, [])
        [Begin_connect True, Resume 0 (Open_answer (Inl (JError ''fetch failed''))),
         Timer_fires 0 True]"
    by code_simp
  obtain s3 pool3 where w3: "segments (new_McpBundler test_options, [])
        [Begin_connect True, Resume 0 (Open_answer (Inl (JError ''fetch failed'')))] = (s3, pool3)"
    by (metis surj_pair)
  have a3: "one_at_a_time (new_McpBundler test_options, [])
        [Begin_connect True, Resume 0 (Open_answer (Inl (JError ''fetch failed'')))]"
    by code_simp
  obtain s4 pool4 where w4: "segments (new_McpBundler test_options, [])
        [Begin_connect True] = (s4, pool4)"
    by (metis surj_pair)
  have a4: "one_at_a_time (new_McpBundler test_options, [])
        [Begin_connect True]"
    by code_simp
  have b1: "state (fst (segments (new_McpBundler test_options, [])
        (in_a_row (CallConnect Opened (Inr [plain_tool ''a'']))))) = Connected"
    by code_simp
  have "state s1 = Connected"
    using b1 by (simp only: w1 fst_conv snd_conv)
  then have r1: "client s1 \<noteq> None"
    using connection_object_by_state [OF a1 w1] by blast
  have b2: "snd (segments (new_McpBundler reconnect_test_options, [])
        [Begin_connect True, Resume 0 (Open_answer (Inl (JError ''fetch failed''))),
         Timer_fires 0 True]) = [AwaitStaleClose]"
    by code_simp
  have "pool2 = [AwaitStaleClose]"
    using b2 by (simp only: w2 fst_conv snd_conv)
  then have "AwaitStaleClose \<in> set pool2"
    by simp
  then have r2: "state s2 = Idle \<and> client s2 \<noteq> None"
    using connection_object_by_state [OF a2 w2] by blast
  have b3: "state (fst (segments (new_McpBundler test_options, [])
        [Begin_connect True, Resume 0 (Open_answer (Inl (JError ''fetch failed'')))])) = Disconnected"
    by code_simp
  have "state s3 = Disconnected"
    using b3 by (simp only: w3 fst_conv snd_conv)
  then have r3: "client s3 \<noteq> None"
    using connection_object_by_state [OF a3 w3] by blast
  have b4: "state (fst (segments (new_McpBundler test_options, [])
        [Begin_connect True])) = Connecting"
    by code_simp
  have "state s4 = Connecting"
    using b4 by (simp only: w4 fst_conv snd_conv)
  then have r4: "client s4 \<noteq> None"
    using connection_object_by_state [OF a4 w4] by blast
  show ?thesis
    using a1 a2 a3 a4 b1 b2 b3 b4 r1 r2 r3 r4
    by (simp only: w1 w2 w3 w4 fst_conv snd_conv) blast
qed

text \<open>
  Claim C3 as stated fails. After the failed connect of the repository's test
  (\<^verbatim>\<open>transitions to disconnected on connection failure\<close>) the state is disconnected and
  the client object created by that attempt is still in the field. While the reconnect
  callback awaits the close of that client, the state is idle and the client is still in
  the field. And when operations overlap, the state can be connected with no client: a
  \<^verbatim>\<open>close\<close> that runs to its end while a \<^verbatim>\<open>connect\<close> awaits the open, which then
  succeeds.
\<close>

theorem disconnected_keeps_stale_client:
  "state (run (new_McpBundler test_options) [CallConnect fetch_failed (Inr [])]) = Disconnected
   \<and> client (run (new_McpBundler test_options) [CallConnect fetch_failed (Inr [])])
       = Some NewClient
   \<and> state (fst (segments (new_McpBundler reconnect_test_options, [])
        [Begin_connect True, Resume 0 (Open_answer (Inl (JError ''fetch failed''))),
         Timer_fires 0 True])) = Idle
   \<and> client (fst (segments (new_McpBundler reconnect_test_options, [])
        [Begin_connect True, Resume 0 (Open_answer (Inl (JError ''fetch failed''))),
         Timer_fires 0 True])) = Some NewClient
   \<and> state (fst (segments (new_McpBundler test_options, [])
        [Begin_connect True, Begin_close, Resume 1 (Close_answer (Inr ())),
         Resume 0 (Open_answer (Inr ()))])) = Connected
   \<and> client (fst (segments (new_McpBundler test_options, [])
        [Begin_connect True, Begin_close, Resume 1 (Close_answer (Inr ())),
         Resume 0 (Open_answer (Inr ()))])) = None
   \<and> \<not> one_at_a_time (new_McpBundler test_options, [])
        [Begin_connect True, Begin_close, Resume 1 (Close_answer (Inr ())),
         Resume 0 (Open_answer (Inr ()))]"
  by code_simp

section \<open>Retries\<close>

lemma scheduleReconnect_exhausted:
  "maxRetries (reconnectOpts s) \<le> enat (retryCount s) \<Longrightarrow> scheduleReconnect s = s"
  by (simp add: scheduleReconnect_def)

lemma connect_success_resets:
  "state s \<noteq> Connected \<Longrightarrow> state (snd (connect a l s)) = Connected \<Longrightarrow>
   retryCount (snd (connect a l s)) = 0"
  by (auto simp: connect_def Let_def connect_catch_def
      split: if_splits open_outcome.splits sum.splits)

text \<open>
  Claim C7. When the retry counter has reached \<^verbatim>\<open>maxRetries\<close>, \<^verbatim>\<open>scheduleReconnect\<close>
  changes nothing: no timer is armed. A connect that brings the manager to the connected
  state leaves the counter at 0. In every state that a run reaches from a new manager the
  counter is at most \<^verbatim>\<open>maxRetries\<close>. With \<^verbatim>\<open>maxRetries = 2\<close>: after the first
  failure and two failed reconnect attempts no timer is armed, and only two timers were
  ever armed.
\<close>

theorem reconnect_bounded_by_maxRetries:
  "(maxRetries (reconnectOpts s) \<le> enat (retryCount s) \<longrightarrow> scheduleReconnect s = s)
   \<and> (state s \<noteq> Connected \<and> state (snd (connect a l s)) = Connected
        \<longrightarrow> retryCount (snd (connect a l s)) = 0)
   \<and> enat (retryCount (run (new_McpBundler options) trace))
        \<le> maxRetries (reconnectOpts (run (new_McpBundler options) trace))
   \<and> (pending_timers (run (new_McpBundler reconnect_test_options)
          [CallConnect fetch_failed (Inr []),
           TimerFires 0 fetch_failed (Inr []) (Inr []),
           TimerFires 1 fetch_failed (Inr []) (Inr [])]) = []
        \<and> next_timer (run (new_McpBundler reconnect_test_options)
          [CallConnect fetch_failed (Inr []),
           TimerFires 0 fetch_failed (Inr []) (Inr []),
           TimerFires 1 fetch_failed (Inr []) (Inr [])]) = 2)"
proof (intro conjI impI)
  assume "maxRetries (reconnectOpts s) \<le> enat (retryCount s)"
  then show "scheduleReconnect s = s"
    by (rule scheduleReconnect_exhausted)
next
  assume "state s \<noteq> Connected \<and> state (snd (connect a l s)) = Connected"
  then show "retryCount (snd (connect a l s)) = 0"
    using connect_success_resets by blast
next
  show "enat (retryCount (run (new_McpBundler options) trace))
        \<le> maxRetries (reconnectOpts (run (new_McpBundler options) trace))"
    using run_retry_inv [OF new_retry_inv, of options trace] by (simp add: retry_inv_def)
next
  show "pending_timers (run (new_McpBundler reconnect_test_options)
          [CallConnect fetch_failed (Inr []),
           TimerFires 0 fetch_failed (Inr []) (Inr []),
           TimerFires 1 fetch_failed (Inr []) (Inr [])]) = []"
    by code_simp
next
  show "next_timer (run (new_McpBundler reconnect_test_options)
          [CallConnect fetch_failed (Inr []),
           TimerFires 0 fetch_failed (Inr []) (Inr []),
           TimerFires 1 fetch_failed (Inr []) (Inr [])]) = 2"
    by code_simp
qed

text \<open>
  The theorem at the state after the first failure and two failed reconnect attempts
  (counter 2, \<^verbatim>\<open>maxRetries\<close> 2): scheduling changes nothing there, and a manual connect
  that succeeds resets the counter.
\<close>

theorem reconnect_bounded_by_maxRetries_witness:
  "scheduleReconnect (run (new_McpBundler reconnect_test_options)
      [CallConnect fetch_failed (Inr []),
       TimerFires 0 fetch_failed (Inr []) (Inr []),
       TimerFires 1 fetch_failed (Inr []) (Inr [])])
     = run (new_McpBundler reconnect_test_options)
      [CallConnect fetch_failed (Inr []),
       TimerFires 0 fetch_failed (Inr []) (Inr []),
       TimerFires 1 fetch_failed (Inr []) (Inr [])]
   \<and> retryCount (run (new_McpBundler reconnect_test_options)
      [CallConnect fetch_failed (Inr []),
       TimerFires 0 fetch_failed (Inr []) (Inr []),
       TimerFires 1 fetch_failed (Inr []) (Inr [])]) = 2
   \<and> retryCount (snd (connect Opened (Inr [])
      (run (new_McpBundler reconnect_test_options)
        [CallConnect fetch_failed (Inr []),
         TimerFires 0 fetch_failed (Inr []) (Inr []),
         TimerFires 1 fetch_failed (Inr []) (Inr [])]))) = 0"
proof -
  define s2 where "s2 = run (new_McpBundler reconnect_test_options)
      [CallConnect fetch_failed (Inr []),
       TimerFires 0 fetch_failed (Inr []) (Inr []),
       TimerFires 1 fetch_failed (Inr []) (Inr [])]"
  have h1: "maxRetries (reconnectOpts s2) \<le> enat (retryCount s2)"
    unfolding s2_def by code_simp
  have h2: "state s2 \<noteq> Connected \<and> state (snd (connect Opened (Inr []) s2)) = Connected"
    unfolding s2_def by code_simp
  have h3: "retryCount s2 = 2"
    unfolding s2_def by code_simp
  have "scheduleReconnect s2 = s2 \<and> retryCount s2 = 2
      \<and> retryCount (snd (connect Opened (Inr []) s2)) = 0"
    using h1 h2 h3 reconnect_bounded_by_maxRetries [of s2 Opened "Inr []"] by simp
  then show ?thesis
    unfolding s2_def .
qed

section \<open>The snapshot of tool names\<close>




section \<open>Failures of connect\<close>

lemma connect_catch_formattable:
  "formatError error = Inr msg \<Longrightarrow>
   connect_catch error s = (Inr (), scheduleReconnect (s\<lparr> state := Disconnected \<rparr>))"
  by (simp add: connect_catch_def)

lemma scheduleReconnect_pending:
  "pending_timers (scheduleReconnect s) =
     (if \<not> closed s \<and> enabled (reconnectOpts s)
         \<and> enat (retryCount s) < maxRetries (reconnectOpts s)
      then pending_timers s @ [next_timer s] else pending_timers s)"
  by (auto simp: scheduleReconnect_def)

text \<open>
  Claim C2, as amended. For a call of \<^verbatim>\<open>connect\<close> that proceeds (not closed, state
  neither connecting nor connected): when the open fails, by an invalid URL or by a
  rejection whose value \<^verbatim>\<open>formatError\<close> can format, the call returns, the state is
  disconnected, no notification is emitted, and a reconnect timer is armed exactly when
  reconnect is enabled and the retry counter is below \<^verbatim>\<open>maxRetries\<close> (shutdown has not
  been requested, since the call proceeded). When the open succeeds and the listing fails
  with such a value, \<^verbatim>\<open>listTools\<close> swallows the failure: the state is connected, the
  snapshot is empty, \<^verbatim>\<open>connected\<close> is emitted and no timer is armed.
\<close>

theorem connect_failure_paths:
  assumes "\<not> closed s" and "state s \<noteq> Connecting" and "state s \<noteq> Connected"
  shows
    "(formatError error = Inr msg \<longrightarrow>
        fst (connect (OpenRejected error) listing s) = Inr ()
        \<and> state (snd (connect (OpenRejected error) listing s)) = Disconnected
        \<and> emitted (snd (connect (OpenRejected error) listing s)) = emitted s
        \<and> pending_timers (snd (connect (OpenRejected error) listing s)) =
            (if enabled (reconnectOpts s) \<and> enat (retryCount s) < maxRetries (reconnectOpts s)
             then pending_timers s @ [next_timer s] else pending_timers s))
     \<and> (fst (connect UrlInvalid listing s) = Inr ()
        \<and> state (snd (connect UrlInvalid listing s)) = Disconnected
        \<and> emitted (snd (connect UrlInvalid listing s)) = emitted s
        \<and> pending_timers (snd (connect UrlInvalid listing s)) =
            (if enabled (reconnectOpts s) \<and> enat (retryCount s) < maxRetries (reconnectOpts s)
             then pending_timers s @ [next_timer s] else pending_timers s))
     \<and> (formatError error = Inr msg \<longrightarrow>
        fst (connect Opened (Inl error) s) = Inr ()
        \<and> state (snd (connect Opened (Inl error) s)) = Connected
        \<and> lastToolNames (snd (connect Opened (Inl error) s)) = []
        \<and> emitted (snd (connect Opened (Inl error) s)) = emitted s @ [Ev_connected]
        \<and> pending_timers (snd (connect Opened (Inl error) s)) = pending_timers s)"
proof -
  have u: "formatError (JError ''Invalid URL'') = Inr (Some ''Invalid URL'')"
    by (simp add: formatError_def)
  show ?thesis
    using assms
    by (simp add: connect_def Let_def connect_catch_formattable connect_catch_formattable [OF u]
        scheduleReconnect_pending listTools_def)
qed

text \<open>
  The theorem on the refused open of the tests: with reconnect enabled the timer with
  handle 0 is armed, with reconnect disabled none is.
\<close>

theorem connect_failure_paths_witness:
  "state (snd (connect fetch_failed (Inr []) (new_McpBundler reconnect_test_options))) = Disconnected
   \<and> emitted (snd (connect fetch_failed (Inr []) (new_McpBundler reconnect_test_options))) = []
   \<and> pending_timers (snd (connect fetch_failed (Inr []) (new_McpBundler reconnect_test_options))) = [0]
   \<and> state (snd (connect fetch_failed (Inr []) (new_McpBundler test_options))) = Disconnected
   \<and> pending_timers (snd (connect fetch_failed (Inr []) (new_McpBundler test_options))) = []"
  using connect_failure_paths
      [of "new_McpBundler reconnect_test_options" "JError ''fetch failed''" "Some ''fetch failed''" "Inr []"]
    connect_failure_paths
      [of "new_McpBundler test_options" "JError ''fetch failed''" "Some ''fetch failed''" "Inr []"]
  by (simp add: new_McpBundler_def reconnect_test_options_def test_options_def fetch_failed_def
      formatError_def zero_enat_def [symmetric])

text \<open>
  Claim C2 as stated fails twice. A failure of the initial listing does not leave the
  manager disconnected: \<^verbatim>\<open>listTools\<close> catches it, the state is connected and
  \<^verbatim>\<open>connected\<close> is emitted. And with reconnect enabled and no shutdown, a failed open
  arms no timer when the retry counter has reached \<^verbatim>\<open>maxRetries\<close> (here 0).
\<close>

theorem connect_listing_failure_connects:
  "state (snd (connect Opened (Inl (JError ''listing failed'')) (new_McpBundler test_options)))
     = Connected
   \<and> emitted (snd (connect Opened (Inl (JError ''listing failed'')) (new_McpBundler test_options)))
     = [Ev_connected]
   \<and> enabled (reconnectOpts (new_McpBundler no_retry_options))
   \<and> \<not> closed (new_McpBundler no_retry_options)
   \<and> state (snd (connect fetch_failed (Inr []) (new_McpBundler no_retry_options))) = Disconnected
   \<and> pending_timers (snd (connect fetch_failed (Inr []) (new_McpBundler no_retry_options))) = []"
  by code_simp

section \<open>Proxies never raise a remote failure they can format\<close>








section \<open>Unregistering\<close>

text \<open>
  Claim C6, as amended. On a host without a table of installed tools,
  \<^verbatim>\<open>unregisterTools\<close> returns at once: no removal, no failure, and the registration
  set is left as it was. On a host with a table, \<^verbatim>\<open>remove()\<close> is called exactly for the
  names of the registration set whose entry in the table has a \<^verbatim>\<open>remove\<close> function, and
  the registration set is emptied; nothing else of the manager changes.
\<close>

theorem unregisterTools_contract:
  "unregisterTools None s = ([], s)
   \<and> (n \<in> set (fst (unregisterTools (Some table) s)) \<longleftrightarrow>
        n \<in> set (registeredToolNames s)
        \<and> (\<exists>entry. map_of table n = Some entry \<and> has_remove entry))
   \<and> snd (unregisterTools (Some table) s) = s\<lparr> registeredToolNames := [] \<rparr>"
  by (auto simp: unregisterTools_def removable_def split: option.splits)

text \<open>
  The theorem on the example of the specification: the registration set holds
  \<^verbatim>\<open>tool_a\<close>, the host has \<^verbatim>\<open>tool_a\<close> and \<^verbatim>\<open>tool_b\<close>.
\<close>

theorem unregisterTools_contract_witness:
  "fst (unregisterTools
      (Some [(''tool_a'', \<lparr> has_remove = True \<rparr>), (''tool_b'', \<lparr> has_remove = True \<rparr>)])
      (run (new_McpBundler test_options)
         [CallConnect Opened (Inr [plain_tool ''tool_a'']),
          CallRegisterTools zod_accessors (Inr [plain_tool ''tool_a'']) []])) = [''tool_a'']
   \<and> registeredToolNames (snd (unregisterTools
      (Some [(''tool_a'', \<lparr> has_remove = True \<rparr>), (''tool_b'', \<lparr> has_remove = True \<rparr>)])
      (run (new_McpBundler test_options)
         [CallConnect Opened (Inr [plain_tool ''tool_a'']),
          CallRegisterTools zod_accessors (Inr [plain_tool ''tool_a'']) []]))) = []"
proof -
  have "fst (unregisterTools
      (Some [(''tool_a'', \<lparr> has_remove = True \<rparr>), (''tool_b'', \<lparr> has_remove = True \<rparr>)])
      (run (new_McpBundler test_options)
         [CallConnect Opened (Inr [plain_tool ''tool_a'']),
          CallRegisterTools zod_accessors (Inr [plain_tool ''tool_a'']) []])) = [''tool_a'']"
    by code_simp
  then show ?thesis
    using unregisterTools_contract
      [of "run (new_McpBundler test_options)
         [CallConnect Opened (Inr [plain_tool ''tool_a'']),
          CallRegisterTools zod_accessors (Inr [plain_tool ''tool_a'']) []]" _
        "[(''tool_a'', \<lparr> has_remove = True \<rparr>), (''tool_b'', \<lparr> has_remove = True \<rparr>)]"]
    by simp
qed

text \<open>
  Claim C6 as stated fails on a host without a table (the \<^verbatim>\<open>{}\<close> of the repository's
  test): the early return comes before \<^verbatim>\<open>registeredToolNames.clear()\<close>, so the
  registration set still holds \<^verbatim>\<open>tool_a\<close>.
\<close>

theorem unregisterTools_absent_table_keeps_set:
  "registeredToolNames (snd (unregisterTools None
      (run (new_McpBundler test_options)
         [CallConnect Opened (Inr [plain_tool ''tool_a'']),
          CallRegisterTools zod_accessors (Inr [plain_tool ''tool_a'']) []]))) = [''tool_a'']"
  by code_simp

section \<open>Serialized lists of names are equal only for equal lists\<close>

lemma of_char_hex_char:
  "a < 16 \<Longrightarrow> (of_char (hex_char a) :: nat) = (if a < 10 then 48 + a else 87 + a)"
  by (simp add: hex_char_def)

lemma hex_char_inj: "a < 16 \<Longrightarrow> b < 16 \<Longrightarrow> hex_char a = hex_char b \<Longrightarrow> a = b"
proof -
  assume a: "a < 16" and b: "b < 16" and e: "hex_char a = hex_char b"
  have "(of_char (hex_char a) :: nat) = of_char (hex_char b)"
    using e by simp
  then show "a = b"
    using a b by (simp add: of_char_hex_char split: if_splits)
qed

lemma escape_char_cases:
  "escape_char c = [c] \<and> c \<noteq> CHR 0x22 \<and> c \<noteq> CHR 0x5C
   \<or> (\<exists>l. escape_char c = [CHR 0x5C, l] \<and> l \<noteq> CHR ''u'')
   \<or> escape_char c = [CHR 0x5C, CHR ''u'', CHR ''0'', CHR ''0'',
         hex_char (of_char c div 16), hex_char (of_char c mod 16)] \<and> (of_char c :: nat) < 32"
  by (simp add: escape_char_def)

lemma escape_char_inj: "escape_char c = escape_char d \<Longrightarrow> c = d"
proof -
  assume e: "escape_char c = escape_char d"
  have u: "c = d" if "(of_char c :: nat) < 32" "(of_char d :: nat) < 32"
     "hex_char (of_char c div 16) = hex_char (of_char d div 16)"
     "hex_char (of_char c mod 16) = hex_char (of_char d mod 16)"
  proof -
    have "(of_char c :: nat) div 16 = of_char d div 16"
      using that by (intro hex_char_inj) auto
    moreover have "(of_char c :: nat) mod 16 = of_char d mod 16"
      using that by (intro hex_char_inj) auto
    ultimately have "(of_char c :: nat) = of_char d"
      by (metis div_mult_mod_eq)
    then show ?thesis by simp
  qed
  show ?thesis
    using e u by (auto simp: escape_char_def split: if_splits)
qed

lemma escape_char_prefix:
  assumes "escape_char c @ A = escape_char d @ B"
  shows "c = d \<and> A = B"
proof -
  have "escape_char c = escape_char d \<and> A = B"
    using assms escape_char_cases [of c] escape_char_cases [of d]
    by (elim disjE exE conjE) auto
  then show ?thesis
    using escape_char_inj by blast
qed

lemma escape_char_not_quote: "escape_char c @ A \<noteq> CHR 0x22 # B"
  using escape_char_cases [of c] by auto

lemma escaped_body_inj:
  "concat (map escape_char xs) @ CHR 0x22 # r1 = concat (map escape_char ys) @ CHR 0x22 # r2
   \<Longrightarrow> xs = ys \<and> r1 = r2"
proof (induction xs arbitrary: ys)
  case Nil
  show ?case
  proof (cases ys)
    case Nil
    then show ?thesis using Nil.prems by simp
  next
    case (Cons y ys')
    have "escape_char y @ (concat (map escape_char ys') @ CHR 0x22 # r2) = CHR 0x22 # r1"
      using Nil.prems Cons by simp
    then show ?thesis
      using escape_char_not_quote by blast
  qed
next
  case (Cons x xs)
  show ?case
  proof (cases ys)
    case Nil
    have "escape_char x @ (concat (map escape_char xs) @ CHR 0x22 # r1) = CHR 0x22 # r2"
      using Cons.prems Nil by simp
    then show ?thesis
      using escape_char_not_quote by blast
  next
    case (Cons y ys')
    have "escape_char x @ (concat (map escape_char xs) @ CHR 0x22 # r1)
        = escape_char y @ (concat (map escape_char ys') @ CHR 0x22 # r2)"
      using Cons.prems Cons by simp
    then have "x = y \<and> concat (map escape_char xs) @ CHR 0x22 # r1
        = concat (map escape_char ys') @ CHR 0x22 # r2"
      by (rule escape_char_prefix)
    then show ?thesis
      using Cons.IH [of ys'] Cons by simp
  qed
qed

lemma QuoteJSONString_prefix:
  "QuoteJSONString x @ r1 = QuoteJSONString y @ r2 \<Longrightarrow> x = y \<and> r1 = r2"
  using escaped_body_inj [of x r1 y r2] by (simp add: QuoteJSONString_def)

lemma join_Cons: "join sep (x # xs) = x @ (if xs = [] then [] else sep @ join sep xs)"
  by (cases xs) simp_all

lemma join_quoted_inj:
  "join '','' (map QuoteJSONString xs) = join '','' (map QuoteJSONString ys) \<Longrightarrow> xs = ys"
proof (induction xs arbitrary: ys)
  case Nil
  then show ?case
    by (cases ys) (auto simp: join_Cons QuoteJSONString_def)
next
  case (Cons x xs)
  show ?case
  proof (cases ys)
    case Nil
    then show ?thesis
      using Cons.prems by (auto simp: join_Cons QuoteJSONString_def)
  next
    case (Cons y ys')
    have e: "QuoteJSONString x @ (if xs = [] then [] else '','' @ join '','' (map QuoteJSONString xs))
        = QuoteJSONString y @ (if ys' = [] then [] else '','' @ join '','' (map QuoteJSONString ys'))"
      using Cons.prems Cons by (simp add: join_Cons)
    then have xy: "x = y"
      and r: "(if xs = [] then [] else '','' @ join '','' (map QuoteJSONString xs))
        = (if ys' = [] then [] else '','' @ join '','' (map QuoteJSONString ys'))"
      using QuoteJSONString_prefix by blast+
    have "xs = ys'"
    proof (cases "xs = []")
      case True
      then show ?thesis using r by (auto split: if_splits)
    next
      case False
      then have "ys' \<noteq> []" using r by (auto split: if_splits)
      then show ?thesis using r False Cons.IH [of ys'] by simp
    qed
    then show ?thesis using xy Cons by simp
  qed
qed

lemma SerializeJSONArray_strings:
  "SerializeJSONArray (map JStr xs) = Inr (map QuoteJSONString xs)"
  by (induction xs) simp_all

lemma names_differ_iff: "names_differ xs ys \<longleftrightarrow> xs \<noteq> ys"
  using join_quoted_inj [of xs ys]
  by (auto simp: names_differ_def JSON_stringify_def SerializeJSONArray_strings)

lemma sort_eq_iff_mset: "sort xs = sort ys \<longleftrightarrow> mset xs = mset ys"
  by (metis mset_sort properties_for_sort sorted_sort)

text \<open>
  The comparison of the callback on a connected manager: names are compared as multisets
  (sorted, then serialized), against the snapshot field as it is at that moment.
\<close>

lemma detect_tools_changed_iff:
  assumes "state s = Connected" and "client s \<noteq> None"
  shows "detect_tools_changed (Inr tools) s =
     (if mset (map name tools) \<noteq> mset (lastToolNames s)
      then (Inr (), s\<lparr> lastToolNames := map name tools,
                        emitted := emitted s @ [Ev_tools_changed tools] \<rparr>)
      else (Inr (), s))"
proof -
  obtain c where c: "client s = Some c"
    using assms(2) by blast
  show ?thesis
    using assms(1) c
    by (simp add: detect_tools_changed_def listTools_def Let_def names_differ_iff sort_eq_iff_mset)
qed

section \<open>Change detection after a reconnect\<close>

lemma discard_stale_idle:
  "state (discard_stale t s) = Idle" "client (discard_stale t s) = None"
  "closed (discard_stale t s) = closed s" "emitted (discard_stale t s) = emitted s"
  by (simp_all add: discard_stale_def Let_def clearTimeout_def)

lemma connect_opened_listed:
  assumes "\<not> closed s" and "state s = Idle"
  shows "connect Opened (Inr tools) s =
     (Inr (), s\<lparr> state := Connecting, client := Some NewClient, transport := Some NewTransport,
                  state := Connected, retryCount := 0, lastToolNames := map name tools,
                  emitted := emitted s @ [Ev_connected] \<rparr>)"
  using assms by (simp add: connect_def Let_def listTools_def)

text \<open>
  What the callback of a successful reconnect emits does not depend on the snapshot the
  manager held before: \<^verbatim>\<open>tools_changed\<close> is emitted exactly when the two listings of
  this reconnect differ in their names.
\<close>

lemma reconnect_callback_compares_two_listings:
  assumes "t \<in> set (pending_timers s)" and "\<not> closed s"
  shows "emitted (snd (reconnect_callback t Opened (Inr tools1) (Inr tools2) s)) =
           emitted s @ [Ev_connected]
             @ (if mset (map name tools2) \<noteq> mset (map name tools1)
                then [Ev_tools_changed tools2] else [])
         \<and> lastToolNames (snd (reconnect_callback t Opened (Inr tools1) (Inr tools2) s)) =
           (if mset (map name tools2) \<noteq> mset (map name tools1)
            then map name tools2 else map name tools1)"
proof -
  define s2 where "s2 = discard_stale t s"
  have c: "connect Opened (Inr tools1) s2 =
     (Inr (), s2\<lparr> state := Connecting, client := Some NewClient, transport := Some NewTransport,
                  state := Connected, retryCount := 0, lastToolNames := map name tools1,
                  emitted := emitted s2 @ [Ev_connected] \<rparr>)"
    using assms(2) by (intro connect_opened_listed) (simp_all add: s2_def discard_stale_idle)
  show ?thesis
    using assms(1)
    by (simp add: reconnect_callback_def c [unfolded s2_def] detect_tools_changed_iff
        discard_stale_idle)
qed

text \<open>
  Claim C1, on the code. A manager connected with the tools \<^verbatim>\<open>a\<close> and \<^verbatim>\<open>b\<close> loses its
  transport; the reconnect timer fires, the open succeeds, and the remote now lists
  \<^verbatim>\<open>a\<close> and \<^verbatim>\<open>c\<close>. The callback calls \<^verbatim>\<open>connect\<close>, which stores the new names as the
  snapshot, and only then compares a second listing with that snapshot: the names are
  equal, and no \<^verbatim>\<open>tools_changed\<close> is emitted although the tool set has changed.
\<close>

theorem reconnect_misses_changed_tools:
  "emitted (run (new_McpBundler reconnect_test_options)
      [CallConnect Opened (Inr [plain_tool ''a'', plain_tool ''b'']),
       TransportClosed,
       TimerFires 0 Opened (Inr [plain_tool ''a'', plain_tool ''c''])
                           (Inr [plain_tool ''a'', plain_tool ''c''])])
     = [Ev_connected, Ev_disconnected, Ev_connected]
   \<and> lastToolNames (run (new_McpBundler reconnect_test_options)
      [CallConnect Opened (Inr [plain_tool ''a'', plain_tool ''b'']),
       TransportClosed,
       TimerFires 0 Opened (Inr [plain_tool ''a'', plain_tool ''c''])
                           (Inr [plain_tool ''a'', plain_tool ''c''])])
     = [''a'', ''c'']"
  by code_simp

section \<open>Timers and shutdown\<close>

text \<open>
  Claim C4, on the code. A connect fails and arms the timer with handle 0; the caller
  calls \<^verbatim>\<open>connect\<close> again, which fails and arms the timer with handle 1, overwriting
  the handle kept in \<^verbatim>\<open>reconnectTimer\<close>; \<^verbatim>\<open>close\<close> then clears the timer with
  handle 1 only. The timer with handle 0 is still armed after \<^verbatim>\<open>close\<close>, and it fires
  afterwards.
\<close>

theorem close_leaves_superseded_timer:
  "pending_timers (run (new_McpBundler reconnect_test_options)
      [CallConnect fetch_failed (Inr []), CallConnect fetch_failed (Inr []), CallClose closes_well])
     = [0]
   \<and> closed (run (new_McpBundler reconnect_test_options)
      [CallConnect fetch_failed (Inr []), CallConnect fetch_failed (Inr []), CallClose closes_well])
   \<and> reconnectTimer (run (new_McpBundler reconnect_test_options)
      [CallConnect fetch_failed (Inr []), CallConnect fetch_failed (Inr []), CallClose closes_well])
     = None
   \<and> pending_timers (run (new_McpBundler reconnect_test_options)
      [CallConnect fetch_failed (Inr []), CallConnect fetch_failed (Inr []), CallClose closes_well,
       TimerFires 0 fetch_failed (Inr []) (Inr [])])
     = []"
  by code_simp

end
